theory Spec2Isabelle
  imports Complex_Main "HOL-Library.While_Combinator"
begin

section \<open>JavaScript strings and numbers\<close>

text \<open>
  Strings are lists of 8-bit characters. The serial line is decoded with the
  \<^verbatim>\<open>binary\<close> encoding, so every code unit of a received line is below 256; the strings
  the driver builds itself are hexadecimal digits. \<open>toUpperCase\<close> is modelled on the
  ASCII letters, which is what it does on such strings.

  Numbers that can be \<^verbatim>\<open>NaN\<close> are values of an option type, \<open>None\<close> being \<^verbatim>\<open>NaN\<close>.
\<close>

definition toUpperCase_char :: "char \<Rightarrow> char" where
  "toUpperCase_char c =
     (if 97 \<le> (of_char c :: nat) \<and> (of_char c :: nat) \<le> 122
      then char_of ((of_char c :: nat) - 32) else c)"

definition toUpperCase :: "string \<Rightarrow> string" where
  "toUpperCase s = map toUpperCase_char s"

text \<open>\<^verbatim>\<open>s.substring(a, b)\<close>: both indices are clamped to the length and swapped when \<open>a > b\<close>.\<close>

definition substring :: "string \<Rightarrow> nat \<Rightarrow> nat \<Rightarrow> string" where
  "substring s a b = drop (min a b) (take (max a b) s)"

text \<open>\<^verbatim>\<open>s.slice(-n)\<close>: the last \<open>n\<close> characters (all of \<open>s\<close> when it is shorter).\<close>

definition slice_last :: "nat \<Rightarrow> string \<Rightarrow> string" where
  "slice_last n s = drop (length s - n) s"

text \<open>\<^verbatim>\<open>parseInt(c, 16)\<close> on a one-character string: the digit's value, or \<^verbatim>\<open>NaN\<close>.\<close>

definition parseInt16 :: "char \<Rightarrow> nat option" where
  "parseInt16 c =
     (let n = (of_char c :: nat) in
      if 48 \<le> n \<and> n \<le> 57 then Some (n - 48)
      else if 65 \<le> n \<and> n \<le> 70 then Some (n - 55)
      else if 97 \<le> n \<and> n \<le> 102 then Some (n - 87)
      else None)"

definition is_hex :: "char \<Rightarrow> bool" where
  "is_hex c = (parseInt16 c \<noteq> None)"

text \<open>\<^verbatim>\<open>n.toString(16)\<close> for a non-negative integer: lower-case digits, no leading zero.\<close>

definition hex_digit :: "nat \<Rightarrow> char" where
  "hex_digit d = (if d < 10 then char_of (48 + d) else char_of (87 + d))"

fun toString16 :: "nat \<Rightarrow> string" where
  "toString16 n =
     (if n < 16 then [hex_digit n] else toString16 (n div 16) @ [hex_digit (n mod 16)])"

declare toString16.simps [simp del]

text \<open>The remainder operator \<^verbatim>\<open>%\<close> truncates: its result has the sign of the dividend.\<close>

definition js_rem :: "int \<Rightarrow> int \<Rightarrow> int" where
  "js_rem a b = sgn a * (\<bar>a\<bar> mod \<bar>b\<bar>)"

text \<open>
  The same operator on numbers that need not be integers: \<open>a - b * q\<close>, where \<open>q\<close> is the
  quotient truncated towards zero; \<^verbatim>\<open>NaN\<close> (here \<open>None\<close>) when the divisor is zero. The
  remainder of two doubles is a double, so that nothing is rounded.
\<close>

definition js_rem_number :: "rat \<Rightarrow> rat \<Rightarrow> rat option" where
  "js_rem_number a b =
     (if b = 0 then None
      else Some (a - b * of_int (if a / b \<ge> 0 then \<lfloor>a / b\<rfloor> else \<lceil>a / b\<rceil>)))"

text \<open>\<^verbatim>\<open>trimLF\<close>: \<^verbatim>\<open>str.split('\n')[0]\<close>, everything before the first line feed.\<close>

definition trimLF :: "string \<Rightarrow> string" where
  "trimLF str = takeWhile (\<lambda>c. c \<noteq> CHR 0x0A) str"


section \<open>Endian swap and command checksum\<close>

text \<open>The padding loop of \<^verbatim>\<open>endianSwap\<close>: prepend \<^verbatim>\<open>0\<close> while the string is too short.\<close>

function pad_zero :: "string \<Rightarrow> nat \<Rightarrow> string" where
  "pad_zero hexStr lengthInBytes =
     (if length hexStr < 2 * lengthInBytes
      then pad_zero (CHR ''0'' # hexStr) lengthInBytes else hexStr)"
  by pat_completeness auto
termination
  by (relation "measure (\<lambda>(s, n). 2 * n - length s)") auto

declare pad_zero.simps [simp del]

text \<open>
  \<^verbatim>\<open>endianSwap(hexStr, lengthInBytes)\<close>. The first assignment replaces the whole string
  by its first two bytes swapped; the test for eight characters is made on the result.
  The branch for twelve characters only logs.
\<close>

definition endianSwap :: "string \<Rightarrow> nat \<Rightarrow> string" where
  "endianSwap hexStr lengthInBytes =
     (let s0 = pad_zero hexStr lengthInBytes;
          s1 = (if length s0 \<ge> 4 then substring s0 2 4 @ substring s0 0 2 else s0);
          s2 = (if length s1 \<ge> 8 then substring s1 6 8 @ substring s1 4 6 else s1)
      in toUpperCase s2)"

text \<open>
  The \<^verbatim>\<open>reduce\<close> of \<^verbatim>\<open>append_checksum\<close>: a digit at an even index counts sixteen-fold.
  One \<^verbatim>\<open>NaN\<close> digit makes the total \<^verbatim>\<open>NaN\<close>.
\<close>

fun reduce_checksum :: "nat option \<Rightarrow> nat \<Rightarrow> nat option list \<Rightarrow> nat option" where
  "reduce_checksum tot index [] = tot"
| "reduce_checksum tot index (hex # rest) =
     reduce_checksum
       (case (tot, hex) of
          (Some t, Some h) \<Rightarrow> Some (if index mod 2 = 0 then t + h * 16 else t + h)
        | _ \<Rightarrow> None)
       (Suc index) rest"

text \<open>
  \<^verbatim>\<open>append_checksum(cmd)\<close>. A \<^verbatim>\<open>NaN\<close> checksum prints as \<^verbatim>\<open>NaN\<close>, of which the slice keeps
  the last two characters.
\<close>

definition append_checksum :: "string \<Rightarrow> string" where
  "append_checksum cmd =
     (let command = CHR ''0'' # cmd;
          byteInHex = map parseInt16 command;
          checksum = reduce_checksum (Some 0) 0 byteInHex;
          digits = (case checksum of
                      None \<Rightarrow> ''NaN''
                    | Some s \<Rightarrow>
                        (let c = js_rem (0x55 - int s) 256;
                             c' = (if c < 0 then c + 256 else c)
                         in toString16 (nat c')))
      in cmd @ toUpperCase (slice_last 2 (CHR ''0'' # digits)))"

text \<open>\<^verbatim>\<open>package(message)\<close>: the frame around a message.\<close>

definition package :: "string \<Rightarrow> string" where
  "package message = CHR '':'' # toUpperCase message @ [CHR 0x0A]"

text \<open>
  The reading of a hexadecimal string as bytes that the checksum rule refers to: two
  digits make one byte, the first being the high nibble. A string of odd length or with
  a character that is no digit has no such reading.
\<close>

fun hex_bytes :: "string \<Rightarrow> nat list option" where
  "hex_bytes [] = Some []"
| "hex_bytes [c] = None"
| "hex_bytes (h # l # cs) =
     (case (parseInt16 h, parseInt16 l, hex_bytes cs) of
        (Some a, Some b, Some bs) \<Rightarrow> Some ((16 * a + b) # bs)
      | _ \<Rightarrow> None)"

definition byte_sum_mod :: "string \<Rightarrow> nat option" where
  "byte_sum_mod s = map_option (\<lambda>bs. sum_list bs mod 256) (hex_bytes s)"


section \<open>Messages and commands\<close>

definition pingCommand :: string where "pingCommand = ''1''"
definition versionCommand :: string where "versionCommand = ''3''"
definition productIdCommand :: string where "productIdCommand = ''4''"
definition restartCommand :: string where "restartCommand = ''6''"
definition getCommand :: string where "getCommand = ''7''"
definition setCommand :: string where "setCommand = ''8''"
definition pingResponse :: string where "pingResponse = ''5''"
definition doneResponse :: string where "doneResponse = ''1''"
definition unknownResponse :: string where "unknownResponse = ''3''"

text \<open>\<^verbatim>\<open>cmdStr.charAt(0)\<close> is the empty string on an empty string.\<close>

definition parseCommand :: "string \<Rightarrow> string" where
  "parseCommand cmdStr = take 1 cmdStr"

definition parseIdentifier :: "string \<Rightarrow> string" where
  "parseIdentifier cmdStr =
     (let c = parseCommand cmdStr in
      if c \<noteq> getCommand \<and> c \<noteq> setCommand then c else substring cmdStr 0 5)"

text \<open>
  The module's configuration variables, with the values they are declared with.
\<close>

record config =
  cmdDefaultPriority :: rat
  cmdDefaultMaxRetries :: rat
  cmdCompression :: bool
  cmdResponseTimeoutMS :: nat

definition default_config :: config where
  "default_config =
     \<lparr>cmdDefaultPriority = 0, cmdDefaultMaxRetries = 3,
      cmdCompression = True, cmdResponseTimeoutMS = 6000\<rparr>"

text \<open>
  The \<^verbatim>\<open>priority\<close> and \<^verbatim>\<open>maxRetries\<close> arguments of the constructor: the falsy values of
  the language (\<^verbatim>\<open>undefined\<close>, \<^verbatim>\<open>null\<close>, \<^verbatim>\<open>false\<close>, \<^verbatim>\<open>NaN\<close>, the empty string and the
  number 0), or a number, which is a rational here: an integer or a fraction such as
  \<^verbatim>\<open>0.5\<close>, positive or negative. \<^verbatim>\<open>Math\<close> is bound to the \<^verbatim>\<open>mathjs\<close> module in this
  file; on numbers its \<^verbatim>\<open>min\<close> and \<^verbatim>\<open>max\<close> are the usual ones, and they return one of
  their arguments, so that nothing is rounded. The other truthy arguments (\<^verbatim>\<open>true\<close>, a
  string that is not empty, an object, an infinity) are left out: what becomes of them
  is decided by the conversions of \<^verbatim>\<open>mathjs\<close>.
\<close>

datatype js_arg = Undefined | Null | JFalse | NaN | EmptyString | Number rat

fun truthy :: "js_arg \<Rightarrow> bool" where
  "truthy (Number n) = (n \<noteq> 0)"
| "truthy _ = False"

fun number_of :: "js_arg \<Rightarrow> rat" where
  "number_of (Number n) = n"
| "number_of _ = 0"

definition setPriority :: "config \<Rightarrow> js_arg \<Rightarrow> rat" where
  "setPriority cfg p =
     (let priority = (if truthy p then number_of p else cmdDefaultPriority cfg);
          priority = min 1 priority
      in max 0 priority)"

definition setMaxRetries :: "config \<Rightarrow> js_arg \<Rightarrow> rat" where
  "setMaxRetries cfg mr =
     (let maxRetries = (if truthy mr then number_of mr else cmdDefaultMaxRetries cfg)
      in max 0 maxRetries)"

definition createMessage :: "string \<Rightarrow> string \<Rightarrow> string \<Rightarrow> string" where
  "createMessage cmd address val =
     (let (eAddress, flag) =
            (if length address > 2 then (endianSwap (drop 2 address) 2, ''00'')
             else ('''', ''''));
          command = cmd @ eAddress @ flag @ val
      in toUpperCase (append_checksum command))"

text \<open>
  A \<^verbatim>\<open>Command\<close> object. Its identifier is a function of \<open>cmdStr\<close>, which never changes
  after construction.
\<close>

record command =
  cmdStr :: string
  priority :: rat
  maxRetries :: rat

definition Command :: "config \<Rightarrow> string \<Rightarrow> string \<Rightarrow> string \<Rightarrow> js_arg \<Rightarrow> js_arg \<Rightarrow> command" where
  "Command cfg cmd address val p mr =
     \<lparr>cmdStr = createMessage cmd address val,
      priority = setPriority cfg p,
      maxRetries = setMaxRetries cfg mr\<rparr>"

definition getId :: "command \<Rightarrow> string" where
  "getId c = parseIdentifier (cmdStr c)"

definition getMessage :: "command \<Rightarrow> string" where
  "getMessage c = cmdStr c"

text \<open>The commands the facade builds; \<open>force\<close> raises the number of retries.\<close>

definition facade_maxRetries :: "bool \<Rightarrow> js_arg" where
  "facade_maxRetries force = Number (if force then 999999 else 3)"

definition facade_get :: "config \<Rightarrow> string \<Rightarrow> js_arg \<Rightarrow> bool \<Rightarrow> command" where
  "facade_get cfg address p force =
     Command cfg getCommand address '''' p (facade_maxRetries force)"

definition facade_set :: "config \<Rightarrow> string \<Rightarrow> string \<Rightarrow> js_arg \<Rightarrow> bool \<Rightarrow> command" where
  "facade_set cfg address val p force =
     Command cfg setCommand address val p (facade_maxRetries force)"

definition facade_ping :: "config \<Rightarrow> js_arg \<Rightarrow> bool \<Rightarrow> command" where
  "facade_ping cfg p force = Command cfg pingCommand '''' '''' p (facade_maxRetries force)"

definition facade_app_version :: "config \<Rightarrow> js_arg \<Rightarrow> bool \<Rightarrow> command" where
  "facade_app_version cfg p force =
     Command cfg versionCommand '''' '''' p (facade_maxRetries force)"

definition facade_productId :: "config \<Rightarrow> js_arg \<Rightarrow> bool \<Rightarrow> command" where
  "facade_productId cfg p force =
     Command cfg productIdCommand '''' '''' p (facade_maxRetries force)"

text \<open>\<^verbatim>\<open>restart\<close> builds no \<^verbatim>\<open>Command\<close>: its body goes to the port directly.\<close>

definition restart_body :: string where
  "restart_body = append_checksum restartCommand"

text \<open>An address \<^verbatim>\<open>0x\<close> followed by one to four hexadecimal digits; a value of digit pairs.\<close>

definition wf_address :: "string \<Rightarrow> bool" where
  "wf_address address =
     (take 2 address = ''0x'' \<and> 1 \<le> length (drop 2 address) \<and> length (drop 2 address) \<le> 4
      \<and> list_all is_hex (drop 2 address))"

definition wf_value :: "string \<Rightarrow> bool" where
  "wf_value val = (even (length val) \<and> list_all is_hex val)"

section \<open>The command queue\<close>

text \<open>
  The exceptions the code can raise: \<^verbatim>\<open>TypeError\<close>, on the assignment to a constant in
  \<^verbatim>\<open>find\<close> and on reading a property of \<^verbatim>\<open>undefined\<close>.
\<close>

datatype error = TypeError

definition isOK :: nat where "isOK = 0"
definition isUnknownID :: nat where "isUnknownID = 1"

record CommandMessageQ =
  cmdMessageQ :: "command list"
  compression :: bool

definition new_CommandMessageQ :: "config \<Rightarrow> CommandMessageQ" where
  "new_CommandMessageQ cfg = \<lparr>cmdMessageQ = [], compression = cmdCompression cfg\<rparr>"

definition setCmdCompression :: "bool \<Rightarrow> CommandMessageQ \<Rightarrow> CommandMessageQ" where
  "setCmdCompression b q = q\<lparr>compression := b\<rparr>"

definition isEmpty :: "CommandMessageQ \<Rightarrow> bool" where
  "isEmpty q = (length (cmdMessageQ q) = 0)"

definition getQLength :: "CommandMessageQ \<Rightarrow> nat" where
  "getQLength q = length (cmdMessageQ q)"

text \<open>\<^verbatim>\<open>del(indexNo)\<close>: \<^verbatim>\<open>splice(indexNo, 1)\<close> when the index is in range, else nothing.\<close>

definition Q_del :: "int \<Rightarrow> CommandMessageQ \<Rightarrow> CommandMessageQ" where
  "Q_del indexNo q =
     (if indexNo \<ge> 0 \<and> indexNo < int (length (cmdMessageQ q))
      then q\<lparr>cmdMessageQ :=
              take (nat indexNo) (cmdMessageQ q) @ drop (Suc (nat indexNo)) (cmdMessageQ q)\<rparr>
      else q)"

text \<open>\<^verbatim>\<open>findIndex\<close>: the first index whose element satisfies the test, or \<open>-1\<close>.\<close>

fun findIndex :: "('a \<Rightarrow> bool) \<Rightarrow> 'a list \<Rightarrow> int" where
  "findIndex P [] = -1"
| "findIndex P (x # xs) =
     (if P x then 0 else (let i = findIndex P xs in if i < 0 then -1 else i + 1))"

text \<open>
  \<^verbatim>\<open>find(responseId)\<close>. The index is declared \<^verbatim>\<open>const\<close>; when no element matches, the
  assignment \<^verbatim>\<open>cmdQIndex = this.cmdMessageQ.length\<close> raises a \<^verbatim>\<open>TypeError\<close>.
\<close>

definition Q_find :: "string \<Rightarrow> CommandMessageQ \<Rightarrow> error + int" where
  "Q_find responseId q =
     (let cmdQIndex = findIndex (\<lambda>element. getId element = responseId) (cmdMessageQ q) in
      if cmdQIndex < 0 \<or> cmdQIndex \<ge> int (length (cmdMessageQ q))
      then Inl TypeError else Inr cmdQIndex)"

text \<open>\<^verbatim>\<open>delete(id)\<close> returns the status together with the queue.\<close>

definition Q_delete :: "string \<Rightarrow> CommandMessageQ \<Rightarrow> error + (nat \<times> CommandMessageQ)" where
  "Q_delete ident q =
     (case Q_find ident q of
        Inl e \<Rightarrow> Inl e
      | Inr cmdQIndex \<Rightarrow>
          if cmdQIndex \<ge> int (getQLength q) then Inr (isUnknownID, q)
          else Inr (isOK, Q_del cmdQIndex q))"

text \<open>
  The loop \<^verbatim>\<open>while (--i > 0 && this.cmdMessageQ[i].getPriority() < priority);\<close> of
  \<^verbatim>\<open>indexForPriority\<close>; the result is \<open>i\<close> after the loop. The element is read only for
  \<open>0 < i < length\<close>.
\<close>

function indexLoop :: "command list \<Rightarrow> rat \<Rightarrow> int \<Rightarrow> int" where
  "indexLoop q prio i =
     (let i' = i - 1 in
      if i' > 0 \<and> priority (q ! nat i') < prio then indexLoop q prio i' else i')"
  by pat_completeness auto
termination
  by (relation "measure (\<lambda>(q, prio, i). nat i)") auto

declare indexLoop.simps [simp del]

definition indexForPriority :: "CommandMessageQ \<Rightarrow> rat \<Rightarrow> nat" where
  "indexForPriority q prio =
     nat (indexLoop (cmdMessageQ q) prio (int (length (cmdMessageQ q))) + 1)"

text \<open>
  \<^verbatim>\<open>insertPriority(message, indexOfInsertion)\<close> moves the first \<open>indexOfInsertion\<close>
  elements to a new array, pushes the message and appends the rest. It is called with
  an index that is at most the length (lemma \<open>indexForPriority_le\<close>).
\<close>

definition insertPriority :: "command \<Rightarrow> nat \<Rightarrow> CommandMessageQ \<Rightarrow> CommandMessageQ" where
  "insertPriority message indexOfInsertion q =
     q\<lparr>cmdMessageQ :=
         take indexOfInsertion (cmdMessageQ q) @ [message] @ drop indexOfInsertion (cmdMessageQ q)\<rparr>"

definition Q_push_back :: "command \<Rightarrow> CommandMessageQ \<Rightarrow> CommandMessageQ" where
  "Q_push_back cmd q =
     (let l = indexForPriority q (priority cmd) in
      if compression q \<and> l > 1 \<and> getId (cmdMessageQ q ! (l - 1)) = getId cmd
      then q\<lparr>cmdMessageQ := (cmdMessageQ q)[l - 1 := cmd]\<rparr>
      else if l = 0 \<or> getMessage (cmdMessageQ q ! (l - 1)) \<noteq> getMessage cmd
      then insertPriority cmd l q
      else q)"

text \<open>
  \<^verbatim>\<open>this.cmdQ.cmdMessageQ[0].setPriority(1)\<close>, which the engine does on a queue that is
  not empty before it sends the head.
\<close>

definition raise_head :: "config \<Rightarrow> CommandMessageQ \<Rightarrow> CommandMessageQ" where
  "raise_head cfg q =
     (case cmdMessageQ q of
        [] \<Rightarrow> q
      | c # cs \<Rightarrow> q\<lparr>cmdMessageQ := c\<lparr>priority := setPriority cfg (Number 1)\<rparr> # cs\<rparr>)"

text \<open>The operations on a queue, and the state a sequence of them leads to.\<close>

datatype q_op =
  Push command | Del int | Delete string | SetCompression bool | RaiseHead

fun apply_op :: "config \<Rightarrow> CommandMessageQ \<Rightarrow> q_op \<Rightarrow> CommandMessageQ" where
  "apply_op cfg q (Push cmd) = Q_push_back cmd q"
| "apply_op cfg q (Del i) = Q_del i q"
| "apply_op cfg q (Delete ident) = (case Q_delete ident q of Inl e \<Rightarrow> q | Inr (r, q') \<Rightarrow> q')"
| "apply_op cfg q (SetCompression b) = setCmdCompression b q"
| "apply_op cfg q RaiseHead = raise_head cfg q"

definition run_ops :: "config \<Rightarrow> q_op list \<Rightarrow> CommandMessageQ" where
  "run_ops cfg ops = foldl (apply_op cfg) (new_CommandMessageQ cfg) ops"

text \<open>Priorities do not increase from index 1 to the tail.\<close>

definition tail_descending :: "CommandMessageQ \<Rightarrow> bool" where
  "tail_descending q = sorted_wrt (\<lambda>a b. a \<ge> b) (map priority (tl (cmdMessageQ q)))"

text \<open>Priorities do not increase from the head to the tail.\<close>

definition descending :: "CommandMessageQ \<Rightarrow> bool" where
  "descending q = sorted_wrt (\<lambda>a b. a \<ge> b) (map priority (cmdMessageQ q))"

section \<open>Commands used as examples\<close>

definition get_V :: command where
  "get_V = facade_get default_config ''0xED8D'' (Number 0) False"

definition get_SOC_urgent :: command where
  "get_SOC_urgent = facade_get default_config ''0x0FFF'' (Number 1) False"

definition set_relay :: command where
  "set_relay = facade_set default_config ''0x034E'' ''01'' Undefined False"

definition get_EEB6_urgent :: command where
  "get_EEB6_urgent = facade_get default_config ''0xEEB6'' (Number 1) False"
section \<open>The register cache\<close>

text \<open>
  The values a descriptor holds, and the values of the expressions over them: \<^verbatim>\<open>null\<close>,
  \<^verbatim>\<open>undefined\<close>, a number, \<^verbatim>\<open>NaN\<close> or a string. A number is a double: a finite one is
  given by its rational value, and \<open>JInf True\<close> and \<open>JInf False\<close> are the two infinities.
  The sign of zero is not kept: no operation that the engine applies to these values
  tells the two zeros apart.
\<close>

datatype jv = JNull | JUndefined | JNum rat | JInf bool | JNaN | JStr string

text \<open>
  The arithmetic of doubles (binary64). \<open>pow2 e\<close> is \<open>2\<^sup>e\<close>, \<open>bitlen n\<close> the number of
  binary digits of \<open>n\<close>, and \<open>ilog2 x\<close> the exponent of a positive rational: the integer
  \<open>e\<close> with \<open>2\<^sup>e \<le> x < 2\<^sup>e\<^sup>+\<^sup>1\<close>. \<open>round_even\<close> rounds to the nearest integer, and to the
  even one of two that are equally near.
\<close>

definition pow2 :: "int \<Rightarrow> rat" where
  "pow2 e = (if e \<ge> 0 then 2 ^ nat e else 1 / 2 ^ nat (- e))"

function bitlen :: "int \<Rightarrow> int" where
  "bitlen n = (if n \<le> 0 then 0 else 1 + bitlen (n div 2))"
  by pat_completeness auto
termination
  by (relation "measure nat") auto

declare bitlen.simps [simp del]

definition ilog2 :: "rat \<Rightarrow> int" where
  "ilog2 x =
     (let (p, q) = quotient_of x;
          d = bitlen p - bitlen q
      in if pow2 d \<le> x then d else d - 1)"

definition round_even :: "rat \<Rightarrow> int" where
  "round_even m =
     (let n = \<lfloor>m\<rfloor>;
          r = m - of_int n
      in if r < 1 / 2 then n else if r > 1 / 2 then n + 1 else if even n then n else n + 1)"

text \<open>
  The double that a real result is rounded to: the nearest multiple of the unit in the
  last place, which is \<open>2\<^sup>e\<^sup>-\<^sup>5\<^sup>2\<close> for a result of exponent \<open>e\<close>, and \<open>2\<^sup>-\<^sup>1\<^sup>0\<^sup>7\<^sup>4\<close> for the
  subnormal ones. A result that rounds to \<open>2\<^sup>1\<^sup>0\<^sup>2\<^sup>4\<close> or beyond is an infinity: its
  exponent is above 1023, or it is 1023 and the multiple is the \<open>2\<^sup>5\<^sup>3\<close>-th.
\<close>

definition fl :: "rat \<Rightarrow> jv" where
  "fl x =
     (if x = 0 then JNum 0
      else
        (let e = max (ilog2 \<bar>x\<bar>) (- 1022);
             ulp = pow2 (e - 52);
             n = round_even (x / ulp)
         in if e > 1023 \<or> (e = 1023 \<and> \<bar>n\<bar> \<ge> 2 ^ 53) then JInf (x > 0)
            else JNum (of_int n * ulp)))"

text \<open>
  A register descriptor (\<^verbatim>\<open>CacheObject\<close>), with the fields the engine reads and writes.
  The scaling factor and the threshold are finite doubles. A listener is a number; what
  the engine does with a listener is call it, and the calls are recorded. A listener is
  taken not to write to the engine's state or to the cache.
\<close>

record cache_object =
  "value" :: jv
  newValue :: jv
  nativeToUnitFactor :: rat
  delta :: rat
  on :: "nat list"

text \<open>
  The descriptors live in a store and the maps hold references into it, so that the
  maps share their objects. \<^verbatim>\<open>bmvdata\<close> is an object whose properties are descriptors
  or booleans (\<^verbatim>\<open>isDirty\<close>), in the order of \<^verbatim>\<open>Object.entries\<close>; \<^verbatim>\<open>victronMap\<close> is a
  \<^verbatim>\<open>Map\<close> from telemetry keys to descriptors.
\<close>

datatype bmv_entry = Obj nat | Flag bool

record device_cache =
  store :: "nat \<Rightarrow> cache_object"
  bmvdata :: "(string \<times> bmv_entry) list"
  victronMap :: "(string \<times> nat) list"

text \<open>
  The calls of listeners: \<^verbatim>\<open>f(newValue, value, packageArrivalTime, key)\<close> for a listener
  of a descriptor, and \<^verbatim>\<open>f(changedObjects, packageArrivalTime)\<close> for a listener of the
  change list, where the map is the list of its entries (key, value, newValue) in
  insertion order.
\<close>

datatype call =
  ValueCall nat jv jv nat string
| ChangeListCall nat "(string \<times> jv \<times> jv) list" nat

text \<open>
  Conversion to a number: the result is a number or \<^verbatim>\<open>NaN\<close>. What a string converts to
  is left to the parameter \<open>str2num\<close>, which stands for the language's conversion of
  strings to finite numbers, \<open>None\<close> being \<^verbatim>\<open>NaN\<close>.
\<close>

fun to_number :: "(string \<Rightarrow> rat option) \<Rightarrow> jv \<Rightarrow> jv" where
  "to_number str2num JNull = JNum 0"
| "to_number str2num JUndefined = JNaN"
| "to_number str2num (JNum r) = JNum r"
| "to_number str2num (JInf b) = JInf b"
| "to_number str2num JNaN = JNaN"
| "to_number str2num (JStr s) = (case str2num s of None \<Rightarrow> JNaN | Some r \<Rightarrow> JNum r)"

fun typeof_number :: "jv \<Rightarrow> bool" where
  "typeof_number (JNum r) = True"
| "typeof_number (JInf b) = True"
| "typeof_number JNaN = True"
| "typeof_number _ = False"

text \<open>
  The loose equality \<^verbatim>\<open>==\<close> on these values. (A string is taken not to denote an
  infinity.)
\<close>

fun loose_eq :: "(string \<Rightarrow> rat option) \<Rightarrow> jv \<Rightarrow> jv \<Rightarrow> bool" where
  "loose_eq str2num JNull b = (b = JNull \<or> b = JUndefined)"
| "loose_eq str2num JUndefined b = (b = JNull \<or> b = JUndefined)"
| "loose_eq str2num JNaN b = False"
| "loose_eq str2num (JNum x) (JNum y) = (x = y)"
| "loose_eq str2num (JNum x) (JStr s) = (str2num s = Some x)"
| "loose_eq str2num (JNum x) b = False"
| "loose_eq str2num (JInf x) (JInf y) = (x = y)"
| "loose_eq str2num (JInf x) b = False"
| "loose_eq str2num (JStr s) (JStr t) = (s = t)"
| "loose_eq str2num (JStr s) (JNum y) = (str2num s = Some y)"
| "loose_eq str2num (JStr s) b = False"

text \<open>
  The operators \<^verbatim>\<open>*\<close> and \<^verbatim>\<open>-\<close>: both operands are converted to numbers, and the exact
  product or difference of two finite numbers is rounded to a double. An infinity times
  zero and the difference of two equal infinities are \<^verbatim>\<open>NaN\<close>.
\<close>

fun number_times :: "jv \<Rightarrow> jv \<Rightarrow> jv" where
  "number_times (JNum a) (JNum b) = fl (a * b)"
| "number_times (JNum a) (JInf t) = (if a = 0 then JNaN else JInf ((0 < a) = t))"
| "number_times (JInf s) (JNum b) = (if b = 0 then JNaN else JInf (s = (0 < b)))"
| "number_times (JInf s) (JInf t) = JInf (s = t)"
| "number_times a b = JNaN"

definition js_times :: "(string \<Rightarrow> rat option) \<Rightarrow> jv \<Rightarrow> jv \<Rightarrow> jv" where
  "js_times str2num a b = number_times (to_number str2num a) (to_number str2num b)"

fun number_minus :: "jv \<Rightarrow> jv \<Rightarrow> jv" where
  "number_minus (JNum a) (JNum b) = fl (a - b)"
| "number_minus (JNum a) (JInf t) = JInf (\<not> t)"
| "number_minus (JInf s) (JNum b) = JInf s"
| "number_minus (JInf s) (JInf t) = (if s = t then JNaN else JInf s)"
| "number_minus a b = JNaN"

definition js_minus :: "(string \<Rightarrow> rat option) \<Rightarrow> jv \<Rightarrow> jv \<Rightarrow> jv" where
  "js_minus str2num a b = number_minus (to_number str2num a) (to_number str2num b)"

text \<open>
  \<^verbatim>\<open>Math.abs\<close>, which the engine applies to a difference, that is to a number or \<^verbatim>\<open>NaN\<close>,
  and the comparison \<^verbatim>\<open>>=\<close> of two numbers, which is false when a side is \<^verbatim>\<open>NaN\<close>.
\<close>

fun Math_abs :: "jv \<Rightarrow> jv" where
  "Math_abs (JNum a) = JNum \<bar>a\<bar>"
| "Math_abs (JInf s) = JInf True"
| "Math_abs a = JNaN"

fun number_ge :: "jv \<Rightarrow> jv \<Rightarrow> bool" where
  "number_ge (JNum a) (JNum b) = (a \<ge> b)"
| "number_ge (JNum a) (JInf t) = (\<not> t)"
| "number_ge (JInf s) (JNum b) = s"
| "number_ge (JInf s) (JInf t) = (s \<or> \<not> t)"
| "number_ge a b = False"

text \<open>\<^verbatim>\<open>SIValues(obj)\<close>: the pair of \<^verbatim>\<open>value\<close> and \<^verbatim>\<open>newValue\<close> in SI units.\<close>

definition SIValues :: "(string \<Rightarrow> rat option) \<Rightarrow> cache_object \<Rightarrow> jv \<times> jv" where
  "SIValues str2num obj =
     (js_times str2num (value obj) (JNum (nativeToUnitFactor obj)),
      js_times str2num (newValue obj) (JNum (nativeToUnitFactor obj)))"

text \<open>
  \<^verbatim>\<open>runOnFunction(key, obj)\<close> returns the change object (the pair of \<^verbatim>\<open>value\<close> and
  \<^verbatim>\<open>newValue\<close>), or nothing, together with the calls it made.
\<close>

definition runOnFunction ::
  "(string \<Rightarrow> rat option) \<Rightarrow> nat \<Rightarrow> string \<Rightarrow> cache_object \<Rightarrow> (jv \<times> jv) option \<times> call list" where
  "runOnFunction str2num arrival key obj =
     (if newValue obj \<noteq> JNull \<and> \<not> loose_eq str2num (value obj) (newValue obj)
      then
        (let changeObj =
               (if typeof_number (newValue obj) then SIValues str2num obj
                else (value obj, newValue obj))
         in if \<not> typeof_number (newValue obj)
               \<or> (typeof_number (newValue obj)
                   \<and> number_ge (Math_abs (js_minus str2num (fst changeObj) (snd changeObj)))
                        (JNum (delta obj)))
            then (Some changeObj,
                  map (\<lambda>f. ValueCall f (snd changeObj) (fst changeObj) arrival key) (on obj))
            else (None, []))
      else (None, []))"

text \<open>The lookup \<^verbatim>\<open>bmvdata[key]\<close>.\<close>

definition bmvdata_get :: "device_cache \<Rightarrow> string \<Rightarrow> bmv_entry option" where
  "bmvdata_get c key = map_of (bmvdata c) key"

text \<open>Assignment to a property, and \<^verbatim>\<open>Map.set\<close>: in place, or at the end when the key is new.\<close>

fun assoc_set :: "'k \<Rightarrow> 'v \<Rightarrow> ('k \<times> 'v) list \<Rightarrow> ('k \<times> 'v) list" where
  "assoc_set k v [] = [(k, v)]"
| "assoc_set k v ((k', v') # kvs) =
     (if k' = k then (k, v) # kvs else (k', v') # assoc_set k v kvs)"

text \<open>
  \<^verbatim>\<open>updateCache(key)\<close>. Reading \<^verbatim>\<open>newValue\<close> of a missing property raises; so does the
  assignment to a property of a boolean, class bodies being strict code.
\<close>

definition updateCache :: "string \<Rightarrow> device_cache \<Rightarrow> error + device_cache" where
  "updateCache key c =
     (case bmvdata_get c key of
        Some (Obj r) \<Rightarrow>
          (let obj = store c r;
               obj = (if newValue obj \<noteq> JNull then obj\<lparr>value := newValue obj\<rparr> else obj);
               obj = obj\<lparr>newValue := JNull\<rparr>
           in Inr (c\<lparr>store := (store c)(r := obj)\<rparr>))
      | _ \<Rightarrow> Inl TypeError)"

text \<open>\<^verbatim>\<open>discardValues\<close>: the loop over \<^verbatim>\<open>victronMap.values()\<close>.\<close>

fun discard_loop :: "nat list \<Rightarrow> (nat \<Rightarrow> cache_object) \<Rightarrow> (nat \<Rightarrow> cache_object)" where
  "discard_loop [] s = s"
| "discard_loop (r # rs) s = discard_loop rs (s(r := (s r)\<lparr>newValue := JNull\<rparr>))"

definition discardValues :: "device_cache \<Rightarrow> device_cache" where
  "discardValues c = c\<lparr>store := discard_loop (map snd (victronMap c)) (store c)\<rparr>"

text \<open>
  \<^verbatim>\<open>parseInt(s)\<close> without a radix: leading white space, a sign, \<^verbatim>\<open>0x\<close> or \<^verbatim>\<open>0X\<close> for
  radix 16, then the longest run of digits; \<^verbatim>\<open>NaN\<close> when there is none. (The result is
  exact: the rounding of integers beyond \<open>2\<^sup>5\<^sup>3\<close> is not modelled; \<open>-0\<close> is \<open>0\<close>.)
\<close>

definition is_white_space :: "char \<Rightarrow> bool" where
  "is_white_space c = ((of_char c :: nat) \<in> {9, 10, 11, 12, 13, 32, 160})"

definition digit_in_radix :: "nat \<Rightarrow> char \<Rightarrow> bool" where
  "digit_in_radix R c = (case parseInt16 c of None \<Rightarrow> False | Some d \<Rightarrow> d < R)"

definition digits_value :: "nat \<Rightarrow> string \<Rightarrow> nat" where
  "digits_value R Z = foldl (\<lambda>acc c. acc * R + the (parseInt16 c)) 0 Z"

definition parseInt :: "string \<Rightarrow> int option" where
  "parseInt inputString =
     (let S = dropWhile is_white_space inputString;
          sgn = (if take 1 S = ''-'' then - 1 else 1);
          S = (if take 1 S = ''+'' \<or> take 1 S = ''-'' then drop 1 S else S);
          (R, S) = (if take 2 S = ''0x'' \<or> take 2 S = ''0X'' then (16, drop 2 S) else (10, S));
          Z = takeWhile (digit_in_radix R) S
      in if Z = [] then None else Some (sgn * int (digits_value R Z)))"

text \<open>\<^verbatim>\<open>s.split(c)\<close> for a separator of one character: at least one piece.\<close>

fun split_at :: "char \<Rightarrow> string \<Rightarrow> string list" where
  "split_at sep [] = [[]]"
| "split_at sep (c # cs) =
     (if c = sep then [] # split_at sep cs
      else (case split_at sep cs of p # ps \<Rightarrow> (c # p) # ps | [] \<Rightarrow> [[c]]))"

text \<open>
  \<^verbatim>\<open>RegularUpdateChecksum.update(line)\<close>: line feed and carriage return, then the character
  codes of the line, or of its first ten characters when its key is \<^verbatim>\<open>Checksum\<close>. A
  character code beyond the end of the line is \<^verbatim>\<open>NaN\<close>.
\<close>

definition sum_codes :: "string \<Rightarrow> nat" where
  "sum_codes s = sum_list (map of_char s)"

definition RegularUpdateChecksum_update :: "string \<Rightarrow> nat option \<Rightarrow> nat option" where
  "RegularUpdateChecksum_update line cs =
     (let res = split_at (CHR 0x09) line;
          lineLength = (if hd res = ''Checksum'' then length (hd res) + 2 else length line)
      in case cs of
           None \<Rightarrow> None
         | Some c \<Rightarrow>
             if lineLength > length line then None
             else Some (c + 10 + 13 + sum_codes (take lineLength line)))"

text \<open>
  The decimal digits of a natural number, and an integer in ASCII as the device sends
  it; a token with the prefix \<^verbatim>\<open>0x\<close> and upper-case digits, such as \<^verbatim>\<open>0x204\<close>.
\<close>

fun toString10 :: "nat \<Rightarrow> string" where
  "toString10 n =
     (if n < 10 then [hex_digit n] else toString10 (n div 10) @ [hex_digit (n mod 10)])"

declare toString10.simps [simp del]

definition ascii_integer :: "int \<Rightarrow> string" where
  "ascii_integer n = (if n < 0 then CHR ''-'' # toString10 (nat (- n)) else toString10 (nat n))"

definition hex_token :: "nat \<Rightarrow> string" where
  "hex_token n = ''0x'' @ toUpperCase (toString16 n)"

definition is_dec :: "char \<Rightarrow> bool" where
  "is_dec c = (48 \<le> (of_char c :: nat) \<and> (of_char c :: nat) \<le> 57)"

section \<open>The protocol engine\<close>

text \<open>
  An entry of \<^verbatim>\<open>responseMap\<close>. The field \<^verbatim>\<open>func\<close> is the \<^verbatim>\<open>resolve\<close> function of the promise
  made for the transmission; calling it schedules \<^verbatim>\<open>responseHandler\<close>, which runs after
  the current call has returned. The responses handed to it are collected in the
  engine's field \<open>resolved\<close>.
\<close>

record pending =
  expect :: string
  orgCmdId :: string
  timerId :: nat
  doRetry :: rat
  sentTime :: nat

text \<open>What a timer does when it fires.\<close>

datatype timer_task = ResponseTimeout command | RunDeferred

text \<open>
  The state of the \<^verbatim>\<open>ReceiverTransmitter\<close>, together with what its methods reach in the
  module: the configuration, the cache, the timers of the event loop (identifier, due
  time, task), the data written to the port with the time of writing, and the calls of
  listeners. The port is open.
\<close>

record engine =
  isOperational :: bool
  sendMessageDeferTimer :: "nat option"
  deferalTimeInMs :: nat
  rxtx_cmdResponseTimeoutMS :: nat
  checksum :: "nat option"
  responseMap :: "string \<Rightarrow> pending option"
  cmdQ :: CommandMessageQ
  port :: "(nat \<times> string) list"
  maxResponseTime :: nat
  rxtx_on :: "nat list"
  packageArrivalTime :: nat
  module_config :: config
  cache :: device_cache
  calls :: "call list"
  timers :: "(nat \<times> nat \<times> timer_task) list"
  nextTimerId :: nat
  resolved :: "string list"

definition new_ReceiverTransmitter :: "config \<Rightarrow> device_cache \<Rightarrow> engine" where
  "new_ReceiverTransmitter c dc =
     \<lparr>isOperational = False, sendMessageDeferTimer = None, deferalTimeInMs = 1000,
      rxtx_cmdResponseTimeoutMS = cmdResponseTimeoutMS c, checksum = Some 0,
      responseMap = (\<lambda>k. None), cmdQ = new_CommandMessageQ c, port = [],
      maxResponseTime = 0, rxtx_on = [], packageArrivalTime = 0, module_config = c, cache = dc,
      calls = [], timers = [], nextTimerId = 0, resolved = []\<rparr>"

definition registerListener :: "nat \<Rightarrow> engine \<Rightarrow> engine" where
  "registerListener listener st = st\<lparr>rxtx_on := rxtx_on st @ [listener]\<rparr>"

definition setTimeout :: "timer_task \<Rightarrow> nat \<Rightarrow> nat \<Rightarrow> engine \<Rightarrow> nat \<times> engine" where
  "setTimeout task delay now st =
     (nextTimerId st,
      st\<lparr>timers := timers st @ [(nextTimerId st, now + delay, task)],
         nextTimerId := Suc (nextTimerId st)\<rparr>)"

definition clearTimeout :: "nat \<Rightarrow> engine \<Rightarrow> engine" where
  "clearTimeout tid st = st\<lparr>timers := filter (\<lambda>t. fst t \<noteq> tid) (timers st)\<rparr>"

definition port_write :: "nat \<Rightarrow> string \<Rightarrow> engine \<Rightarrow> engine" where
  "port_write now s st = st\<lparr>port := port st @ [(now, s)]\<rparr>"

text \<open>\<^verbatim>\<open>restart()\<close>: the restart command goes straight to the port.\<close>

definition restart :: "nat \<Rightarrow> engine \<Rightarrow> engine" where
  "restart now st = port_write now (package (append_checksum restartCommand)) st"

text \<open>\<^verbatim>\<open>Command.getResponse()\<close>: the response expected for a command.\<close>

definition getResponse :: "command \<Rightarrow> string" where
  "getResponse c =
     (let r = parseCommand (cmdStr c);
          cmdStr = getMessage c;
          (r, len) =
            (if r = pingCommand then (pingResponse, 1)
             else if r = versionCommand \<or> r = productIdCommand then (doneResponse, 1)
             else if r = getCommand then (r, length cmdStr - 2)
             else if r = setCommand then (r, length cmdStr)
             else (r, 1))
      in r @ substring cmdStr 1 len)"

text \<open>
  \<^verbatim>\<open>getExpectedResponseTo(command)\<close>: the body of the promise, which runs at once. It sets
  the timer, enters the request under the identifier of the expected response (with the
  command's retries, or one less than the entry's that is there) and writes the command.
  The count of retries is an integer in every command that the facade builds (3 or
  999999), and on the integers of magnitude below \<open>2\<^sup>5\<^sup>3\<close> the subtraction of 1 is exact.
\<close>

definition getExpectedResponseTo :: "nat \<Rightarrow> command \<Rightarrow> engine \<Rightarrow> engine" where
  "getExpectedResponseTo now c st =
     (let expectedResponse = getResponse c;
          responseIdLength = length (getId c);
          responseId = substring expectedResponse 0 responseIdLength;
          (tid, st) = setTimeout (ResponseTimeout c) (rxtx_cmdResponseTimeoutMS st) now st;
          newRetries = (case responseMap st responseId of
                          None \<Rightarrow> maxRetries c
                        | Some pr \<Rightarrow> doRetry pr - 1);
          st = st\<lparr>responseMap := (responseMap st)(responseId \<mapsto>
                    \<lparr>expect = expectedResponse, orgCmdId = getId c, timerId = tid,
                     doRetry = newRetries, sentTime = now\<rparr>)\<rparr>
      in port_write now (package (getMessage c)) st)"

text \<open>\<^verbatim>\<open>runMessageQ()\<close>: send the head, or defer while the port is not operational.\<close>

definition runMessageQ :: "nat \<Rightarrow> engine \<Rightarrow> engine" where
  "runMessageQ now st =
     (if isEmpty (cmdQ st) then st
      else if isOperational st then
        (let st = (case sendMessageDeferTimer st of
                     None \<Rightarrow> st
                   | Some t \<Rightarrow> clearTimeout t st);
             st = st\<lparr>cmdQ := raise_head (module_config st) (cmdQ st)\<rparr>;
             nextCmd = hd (cmdMessageQ (cmdQ st))
         in getExpectedResponseTo now nextCmd st)
      else
        (let st = (case sendMessageDeferTimer st of
                     None \<Rightarrow> st
                   | Some t \<Rightarrow> clearTimeout t st);
             (tid, st) = setTimeout RunDeferred (deferalTimeInMs st) now st
         in st\<lparr>sendMessageDeferTimer := Some tid\<rparr>))"

definition sendMsg :: "nat \<Rightarrow> command \<Rightarrow> engine \<Rightarrow> engine" where
  "sendMsg now message st =
     (let isQEmpty = isEmpty (cmdQ st);
          st = st\<lparr>cmdQ := Q_push_back message (cmdQ st)\<rparr>
      in if isQEmpty then runMessageQ now st else st)"

text \<open>
  The value of \<^verbatim>\<open>victronMap.get('Relay').value\<close>; reading \<^verbatim>\<open>value\<close> of \<^verbatim>\<open>undefined\<close>
  raises.
\<close>

definition relay_value :: "device_cache \<Rightarrow> error + jv" where
  "relay_value c =
     (case map_of (victronMap c) ''Relay'' of
        None \<Rightarrow> Inl TypeError
      | Some r \<Rightarrow> Inr (value (store c r)))"

text \<open>
  \<^verbatim>\<open>responseTimeoutHandler(command)\<close>. The entry is looked up under the command's
  identifier. The test for the relay is evaluated only when the count of retries is a
  multiple of five.
\<close>

definition responseTimeoutHandler :: "nat \<Rightarrow> command \<Rightarrow> engine \<Rightarrow> error + engine" where
  "responseTimeoutHandler now c st =
     (let commandId = getId c;
          st = st\<lparr>maxResponseTime := maxResponseTime st + rxtx_cmdResponseTimeoutMS st\<rparr>;
          r = (case responseMap st commandId of
                 Some pr \<Rightarrow>
                   (case (if js_rem_number (doRetry pr) 5 = Some 0
                          then (case relay_value (cache st) of
                                  Inl e \<Rightarrow> Inl e
                                | Inr v \<Rightarrow> Inr (if v = JStr ''OFF'' then restart now st else st))
                          else Inr st) of
                      Inl e \<Rightarrow> Inl e
                    | Inr st \<Rightarrow>
                        if doRetry pr \<le> 0 then
                          (let st = st\<lparr>responseMap := (responseMap st)(commandId := None)\<rparr> in
                           case Q_delete commandId (cmdQ st) of
                             Inl e \<Rightarrow> Inl e
                           | Inr (status, q) \<Rightarrow> Inr (st\<lparr>cmdQ := q\<rparr>))
                        else Inr st)
               | None \<Rightarrow> Inr st)
      in case r of
           Inl e \<Rightarrow> Inl e
         | Inr st \<Rightarrow>
             if \<not> isEmpty (cmdQ st)
             then Inr (runMessageQ now (st\<lparr>cmdQ := raise_head (module_config st) (cmdQ st)\<rparr>))
             else Inr st)"

text \<open>
  A timer fires at its due time: it leaves the event loop and its task runs. The next
  timer is the one that is due first.
\<close>

definition fire_timer :: "nat \<Rightarrow> engine \<Rightarrow> error + engine" where
  "fire_timer tid st =
     (case filter (\<lambda>t. fst t = tid) (timers st) of
        [] \<Rightarrow> Inr st
      | (t, due, task) # ts \<Rightarrow>
          (let st = st\<lparr>timers := filter (\<lambda>t. fst t \<noteq> tid) (timers st)\<rparr> in
           case task of
             ResponseTimeout c \<Rightarrow> responseTimeoutHandler due c st
           | RunDeferred \<Rightarrow> Inr (runMessageQ due st)))"

fun earliest :: "(nat \<times> nat \<times> timer_task) list \<Rightarrow> (nat \<times> nat \<times> timer_task) option" where
  "earliest [] = None"
| "earliest (t # ts) =
     (case earliest ts of
        None \<Rightarrow> Some t
      | Some u \<Rightarrow> if fst (snd u) < fst (snd t) then Some u else Some t)"

definition fire_next :: "engine \<Rightarrow> error + engine" where
  "fire_next st = (case earliest (timers st) of None \<Rightarrow> Inr st | Some t \<Rightarrow> fire_timer (fst t) st)"

text \<open>The timers fire \<open>n\<close> times in a row, with nothing received in between.\<close>

fun fire_times :: "nat \<Rightarrow> engine \<Rightarrow> error + engine" where
  "fire_times 0 st = Inr st"
| "fire_times (Suc n) st = (case fire_next st of Inl e \<Rightarrow> Inl e | Inr st' \<Rightarrow> fire_times n st')"

text \<open>
  A \<^verbatim>\<open>Response\<close> is its string; its identifier is a function of the string.
  \<^verbatim>\<open>isValid(cmd)\<close> recomputes the checksum of all but the last two characters.
\<close>

definition getChecksum :: "string \<Rightarrow> string" where
  "getChecksum cmd = drop (length cmd - 2) cmd"

definition isValid :: "string \<Rightarrow> bool" where
  "isValid cmd =
     (if length cmd < 3 then False
      else (let rcs = append_checksum (substring cmd 0 (length cmd - 2));
                expectedCS = getChecksum rcs;
                actualCS = getChecksum cmd
            in actualCS = expectedCS))"

text \<open>
  \<^verbatim>\<open>bmvdata.relayState === 'OFF'\<close>: a property of \<^verbatim>\<open>bmvdata\<close> is a descriptor, a boolean
  or missing, and none of these is strictly equal to a string.
\<close>

fun entry_is_string :: "bmv_entry option \<Rightarrow> string \<Rightarrow> bool" where
  "entry_is_string None s = False"
| "entry_is_string (Some (Obj r)) s = False"
| "entry_is_string (Some (Flag b)) s = False"

text \<open>
  \<^verbatim>\<open>evaluate(response)\<close>. Only a valid response whose identifier is in \<^verbatim>\<open>responseMap\<close>
  changes the state; the other branches log.
\<close>

definition evaluate :: "nat \<Rightarrow> string \<Rightarrow> engine \<Rightarrow> engine" where
  "evaluate now response st =
     (let ident = parseIdentifier response in
      if \<not> isValid response then st
      else case responseMap st ident of
             Some pr \<Rightarrow>
               (let st = clearTimeout (timerId pr) st;
                    st = (if expect pr \<noteq> substring response 0 (length (expect pr))
                          then (let st = (if entry_is_string (bmvdata_get (cache st) ''relayState'') ''OFF''
                                          then restart now st else st)
                                in restart now st)
                          else st\<lparr>resolved := resolved st @ [response]\<rparr>)
                in runMessageQ now st)
           | None \<Rightarrow> st)"

text \<open>The loop over the responses that follow the checksum.\<close>

fun evaluate_all :: "nat \<Rightarrow> string list \<Rightarrow> engine \<Rightarrow> engine" where
  "evaluate_all now [] st = st"
| "evaluate_all now (c # cmds) st = evaluate_all now cmds (evaluate now (trimLF c) st)"

text \<open>
  One pass of \<^verbatim>\<open>updateValuesAndValueListeners\<close> over the entries of \<^verbatim>\<open>bmvdata\<close>, with
  the map of changes.
\<close>

fun commit_pass ::
  "(string \<Rightarrow> rat option) \<Rightarrow> (string \<times> bmv_entry) list \<Rightarrow> engine \<times> (string \<times> jv \<times> jv) list
   \<Rightarrow> error + engine \<times> (string \<times> jv \<times> jv) list" where
  "commit_pass str2num [] (st, changedObjects) = Inr (st, changedObjects)"
| "commit_pass str2num ((key, Flag b) # entries) (st, changedObjects) =
     commit_pass str2num entries (st, changedObjects)"
| "commit_pass str2num ((key, Obj r) # entries) (st, changedObjects) =
     (let (change, cs) = runOnFunction str2num (packageArrivalTime st) key (store (cache st) r);
          st = st\<lparr>calls := calls st @ cs\<rparr>;
          changedObjects = (case change of
                              None \<Rightarrow> changedObjects
                            | Some ch \<Rightarrow> assoc_set key ch changedObjects)
      in case updateCache key (cache st) of
           Inl e \<Rightarrow> Inl e
         | Inr c \<Rightarrow> commit_pass str2num entries (st\<lparr>cache := c\<rparr>, changedObjects))"

definition isDirty :: "engine \<Rightarrow> bool" where
  "isDirty st =
     (case bmvdata_get (cache st) ''isDirty'' of
        None \<Rightarrow> False
      | Some (Flag b) \<Rightarrow> b
      | Some (Obj r) \<Rightarrow> True)"

definition set_isDirty :: "bool \<Rightarrow> engine \<Rightarrow> engine" where
  "set_isDirty b st =
     st\<lparr>cache := (cache st)\<lparr>bmvdata := assoc_set ''isDirty'' (Flag b) (bmvdata (cache st))\<rparr>\<rparr>"

text \<open>
  The loop \<^verbatim>\<open>while (bmvdata.isDirty)\<close>: a result \<open>None\<close> would be a loop that never ends.
\<close>

partial_function (option) dirty_loop ::
  "(string \<Rightarrow> rat option) \<Rightarrow> engine \<times> (string \<times> jv \<times> jv) list
   \<Rightarrow> (error + engine \<times> (string \<times> jv \<times> jv) list) option" where
  "dirty_loop str2num s =
     (if isDirty (fst s) then
        (let st = set_isDirty False (fst s) in
         case commit_pass str2num (bmvdata (cache st)) (st, snd s) of
           Inl e \<Rightarrow> Some (Inl e)
         | Inr s' \<Rightarrow> dirty_loop str2num s')
      else Some (Inr s))"

declare dirty_loop.simps [code]

definition updateValuesAndValueListeners ::
  "(string \<Rightarrow> rat option) \<Rightarrow> engine \<Rightarrow> (error + engine) option" where
  "updateValuesAndValueListeners str2num st =
     (case dirty_loop str2num (set_isDirty True st, []) of
        None \<Rightarrow> None
      | Some (Inl e) \<Rightarrow> Some (Inl e)
      | Some (Inr (st, changedObjects)) \<Rightarrow>
          Some (Inr (if changedObjects \<noteq> []
                     then st\<lparr>calls := calls st
                            @ map (\<lambda>f. ChangeListCall f changedObjects (packageArrivalTime st))
                                (rxtx_on st)\<rparr>
                     else st)))"

text \<open>
  \<^verbatim>\<open>parseSerialInput(line)\<close>, at the time \<open>now\<close>. \<open>registerComponent\<close> stands for the
  function of that name of the cache module. The result is \<open>None\<close> if the commit loop
  does not end, \<open>Inl\<close> if an exception leaves the function.
\<close>

definition parseSerialInput ::
  "(string \<Rightarrow> rat option) \<Rightarrow> (string \<Rightarrow> device_cache \<Rightarrow> device_cache) \<Rightarrow> nat \<Rightarrow> string
   \<Rightarrow> engine \<Rightarrow> (error + engine) option" where
  "parseSerialInput str2num registerComponent now line st =
     (if \<not> isOperational st then Some (Inr (st\<lparr>isOperational := True\<rparr>))
      else
        (let res = split_at (CHR 0x09) line in
         if hd res = [] then Some (Inr st)
         else if hd res = ''Checksum'' then
           (let cs = RegularUpdateChecksum_update (substring line 0 (length ''Checksum'' + 2)) (checksum st);
                st = st\<lparr>checksum := cs\<rparr>;
                valid = (case cs of None \<Rightarrow> False | Some c \<Rightarrow> c mod 256 = 0);
                r = (if valid then updateValuesAndValueListeners str2num st
                     else if length res < 2 then Some (Inl TypeError)
                     else Some (Inr (st\<lparr>cache := discardValues (cache st)\<rparr>)))
            in case r of
                 None \<Rightarrow> None
               | Some (Inl e) \<Rightarrow> Some (Inl e)
               | Some (Inr st) \<Rightarrow>
                   (let st = st\<lparr>packageArrivalTime := 0, checksum := Some 0\<rparr> in
                    if length res < 2 then Some (Inl TypeError)
                    else if length (res ! 1) \<le> 3 then Some (Inr st)
                    else
                      (let cmdSplit = split_at (CHR '':'') (drop 1 (res ! 1))
                       in Some (Inr (evaluate_all now (drop 1 cmdSplit) st)))))
         else
           (let st = st\<lparr>checksum := RegularUpdateChecksum_update line (checksum st)\<rparr>;
                st = (if packageArrivalTime st = 0 then st\<lparr>packageArrivalTime := now\<rparr> else st);
                st = (if map_of (victronMap (cache st)) (hd res) = None
                      then st\<lparr>cache := registerComponent (hd res) (cache st)\<rparr> else st)
            in case map_of (victronMap (cache st)) (hd res) of
                 Some r \<Rightarrow>
                   (let newValue = (if length res < 2 then None else parseInt (res ! 1));
                        staged =
                          (if newValue = None \<or> newValue = Some 0
                           then (if length res < 2 then JUndefined else JStr (res ! 1))
                           else JNum (of_int (the newValue)))
                    in Some (Inr (st\<lparr>cache := (cache st)\<lparr>store :=
                         (store (cache st))(r := (store (cache st) r)\<lparr>newValue := staged\<rparr>)\<rparr>\<rparr>)))
               | None \<Rightarrow> Some (Inr st))))"

text \<open>A sequence of lines, each with its time of arrival.\<close>

fun feed ::
  "(string \<Rightarrow> rat option) \<Rightarrow> (string \<Rightarrow> device_cache \<Rightarrow> device_cache) \<Rightarrow> (nat \<times> string) list
   \<Rightarrow> engine \<Rightarrow> (error + engine) option" where
  "feed str2num registerComponent [] st = Some (Inr st)"
| "feed str2num registerComponent ((now, line) # ls) st =
     (case parseSerialInput str2num registerComponent now line st of
        None \<Rightarrow> None
      | Some (Inl e) \<Rightarrow> Some (Inl e)
      | Some (Inr st') \<Rightarrow> feed str2num registerComponent ls st')"

text \<open>The staged \<^verbatim>\<open>newValue\<close> of the descriptor \<open>r\<close> after a line has been parsed.\<close>

definition staged_after ::
  "(string \<Rightarrow> rat option) \<Rightarrow> (string \<Rightarrow> device_cache \<Rightarrow> device_cache) \<Rightarrow> nat \<Rightarrow> string
   \<Rightarrow> nat \<Rightarrow> engine \<Rightarrow> jv option" where
  "staged_after str2num registerComponent now line r st =
     (case parseSerialInput str2num registerComponent now line st of
        Some (Inr st') \<Rightarrow> Some (newValue (store (cache st') r))
      | _ \<Rightarrow> None)"

text \<open>
  The test of \<^verbatim>\<open>parseSerialInput\<close> on a \<^verbatim>\<open>Checksum\<close> line: the sum of the frame's bytes,
  with the line's first ten characters, is zero modulo 256.
\<close>

definition frame_valid :: "string \<Rightarrow> engine \<Rightarrow> bool" where
  "frame_valid line st =
     (case RegularUpdateChecksum_update (substring line 0 (length ''Checksum'' + 2)) (checksum st) of
        None \<Rightarrow> False
      | Some c \<Rightarrow> c mod 256 = 0)"

text \<open>The descriptors of \<^verbatim>\<open>bmvdata\<close> with their keys, in order.\<close>

fun objects_of :: "(string \<times> bmv_entry) list \<Rightarrow> (string \<times> nat) list" where
  "objects_of [] = []"
| "objects_of ((key, Obj r) # entries) = (key, r) # objects_of entries"
| "objects_of ((key, Flag b) # entries) = objects_of entries"

text \<open>
  A cache as the language and the data model have it: the keys of \<^verbatim>\<open>bmvdata\<close> are
  distinct, no descriptor stands under two names, and \<^verbatim>\<open>isDirty\<close> is no descriptor.
\<close>

definition wf_cache :: "device_cache \<Rightarrow> bool" where
  "wf_cache c =
     (distinct (map fst (bmvdata c)) \<and> distinct (map snd (objects_of (bmvdata c)))
      \<and> ''isDirty'' \<notin> set (map fst (objects_of (bmvdata c))))"

text \<open>
  The value of a descriptor in SI units: its product with the scaling factor, as a
  double. A descriptor whose change is reported: a value is staged, it is not equal
  (\<^verbatim>\<open>==\<close>) to the committed one, and if it is a number, the distance of the two values
  in SI units, itself a double, is at least \<^verbatim>\<open>delta\<close>.
\<close>

definition si_units :: "(string \<Rightarrow> rat option) \<Rightarrow> jv \<Rightarrow> rat \<Rightarrow> jv" where
  "si_units str2num v factor = number_times (to_number str2num v) (JNum factor)"

definition distance :: "jv \<Rightarrow> jv \<Rightarrow> jv" where
  "distance a b = Math_abs (number_minus a b)"

definition reportable :: "(string \<Rightarrow> rat option) \<Rightarrow> cache_object \<Rightarrow> bool" where
  "reportable str2num obj =
     (newValue obj \<noteq> JNull \<and> \<not> loose_eq str2num (value obj) (newValue obj)
      \<and> (typeof_number (newValue obj) \<longrightarrow>
            number_ge (distance (si_units str2num (value obj) (nativeToUnitFactor obj))
                                (si_units str2num (newValue obj) (nativeToUnitFactor obj)))
                      (JNum (delta obj))))"

fun is_ChangeListCall :: "call \<Rightarrow> bool" where
  "is_ChangeListCall (ChangeListCall f m t) = True"
| "is_ChangeListCall (ValueCall f n v t k) = False"

text \<open>The calls made since the state \<open>st\<close>, in the state \<open>st'\<close>.\<close>

definition calls_since :: "engine \<Rightarrow> engine \<Rightarrow> call list" where
  "calls_since st st' = drop (length (calls st)) (calls st')"

section \<open>A cache and an engine used as examples\<close>

definition example_cache :: device_cache where
  "example_cache =
     \<lparr>store = (\<lambda>r.
         if r = 0 then \<lparr>value = JNum 10, newValue = JNull, nativeToUnitFactor = 1, delta = 5, on = [1]\<rparr>
         else if r = 1 then \<lparr>value = JStr ''ON'', newValue = JNull, nativeToUnitFactor = 1, delta = 0, on = [2]\<rparr>
         else \<lparr>value = JNull, newValue = JNull, nativeToUnitFactor = 1, delta = 0, on = []\<rparr>),
      bmvdata = [(''upperVoltage'', Obj 0), (''relayState'', Obj 1), (''productId'', Obj 2),
                 (''version'', Obj 3)],
      victronMap = [(''V'', 0), (''Relay'', 1), (''PID'', 2)]\<rparr>"

definition example_engine :: engine where
  "example_engine =
     (registerListener 9 (new_ReceiverTransmitter default_config example_cache))
       \<lparr>isOperational := True\<rparr>"

definition no_registration :: "string \<Rightarrow> device_cache \<Rightarrow> device_cache" where
  "no_registration key c = c"

definition no_number :: "string \<Rightarrow> rat option" where
  "no_number s = None"

text \<open>The example engine after the line \<^verbatim>\<open>V\<close>, tab, \<^verbatim>\<open>12\<close> has arrived at time 100.\<close>

definition staged_engine :: engine where
  "staged_engine =
     (case feed no_number no_registration [(100, ''V'' @ [CHR 0x09] @ ''12'')] example_engine of
        Some (Inr st) \<Rightarrow> st
      | _ \<Rightarrow> example_engine)"

text \<open>
  The entry of the change map for a descriptor: the committed and the staged value, both
  in SI units when the staged value is a number. The change map of a cache lists the
  reportable descriptors in the order of \<^verbatim>\<open>bmvdata\<close>.
\<close>

definition change_entry :: "(string \<Rightarrow> rat option) \<Rightarrow> cache_object \<Rightarrow> jv \<times> jv" where
  "change_entry str2num obj =
     (if typeof_number (newValue obj)
      then (si_units str2num (value obj) (nativeToUnitFactor obj),
            si_units str2num (newValue obj) (nativeToUnitFactor obj))
      else (value obj, newValue obj))"

definition reported ::
  "(string \<Rightarrow> rat option) \<Rightarrow> (nat \<Rightarrow> cache_object) \<Rightarrow> (string \<times> nat) list
   \<Rightarrow> (string \<times> jv \<times> jv) list" where
  "reported str2num S objs =
     map (\<lambda>kr. (fst kr, change_entry str2num (S (snd kr))))
       (filter (\<lambda>kr. reportable str2num (S (snd kr))) objs)"

text \<open>The committed descriptor: the staged value, if there is one, becomes the value.\<close>

definition committed :: "cache_object \<Rightarrow> cache_object" where
  "committed obj =
     (if newValue obj \<noteq> JNull then obj\<lparr>value := newValue obj, newValue := JNull\<rparr>
      else obj\<lparr>newValue := JNull\<rparr>)"

text \<open>
  The example engine after a whole frame: the line \<^verbatim>\<open>V\<close>, tab, \<^verbatim>\<open>12\<close> and the \<^verbatim>\<open>Checksum\<close>
  line with the byte \<^verbatim>\<open>0xD4\<close>, which makes the sum zero.
\<close>

definition committed_engine :: engine where
  "committed_engine =
     (case parseSerialInput no_number no_registration 101 (''Checksum'' @ [CHR 0x09, CHR 0xD4])
             staged_engine of
        Some (Inr st) \<Rightarrow> st
      | _ \<Rightarrow> staged_engine)"

text \<open>
  The same with a second line \<^verbatim>\<open>Relay\<close>, tab, \<^verbatim>\<open>OFF\<close>, for which the checksum byte is
  \<^verbatim>\<open>0xDC\<close>.
\<close>

definition staged_engine2 :: engine where
  "staged_engine2 =
     (case parseSerialInput no_number no_registration 100 (''Relay'' @ [CHR 0x09] @ ''OFF'')
             staged_engine of
        Some (Inr st) \<Rightarrow> st
      | _ \<Rightarrow> staged_engine)"

definition committed_engine2 :: engine where
  "committed_engine2 =
     (case parseSerialInput no_number no_registration 101 (''Checksum'' @ [CHR 0x09, CHR 0xDC])
             staged_engine2 of
        Some (Inr st) \<Rightarrow> st
      | _ \<Rightarrow> staged_engine2)"

text \<open>
  A number written in decimal in the source denotes the double nearest to it:
  \<^verbatim>\<open>0.001\<close> is not one thousandth.
\<close>

definition literal :: "rat \<Rightarrow> rat" where
  "literal x = (case fl x of JNum y \<Rightarrow> y | _ \<Rightarrow> 0)"

text \<open>
  A cache whose voltage is in millivolts, with the factor \<^verbatim>\<open>0.001\<close> and the threshold
  \<^verbatim>\<open>0.005\<close>, and its engine; the engine after the line \<^verbatim>\<open>V\<close>, tab and the digits of \<open>v\<close>
  has arrived at time 100, and after the \<^verbatim>\<open>Checksum\<close> line with the byte \<open>b\<close> has arrived
  too.
\<close>

definition milli_cache :: device_cache where
  "milli_cache =
     \<lparr>store = (\<lambda>r.
         if r = 0 then \<lparr>value = JNum 10, newValue = JNull, nativeToUnitFactor = literal (1 / 1000),
                        delta = literal (5 / 1000), on = [1]\<rparr>
         else \<lparr>value = JNull, newValue = JNull, nativeToUnitFactor = 1, delta = 0, on = []\<rparr>),
      bmvdata = [(''upperVoltage'', Obj 0)],
      victronMap = [(''V'', 0)]\<rparr>"

definition milli_engine :: engine where
  "milli_engine =
     (registerListener 9 (new_ReceiverTransmitter default_config milli_cache))
       \<lparr>isOperational := True\<rparr>"

definition milli_staged :: "nat \<Rightarrow> engine" where
  "milli_staged v =
     (case feed no_number no_registration [(100, ''V'' @ [CHR 0x09] @ toString10 v)] milli_engine of
        Some (Inr st) \<Rightarrow> st
      | _ \<Rightarrow> milli_engine)"

definition milli_committed :: "nat \<Rightarrow> char \<Rightarrow> engine" where
  "milli_committed v b =
     (case parseSerialInput no_number no_registration 101 (''Checksum'' @ [CHR 0x09, b])
             (milli_staged v) of
        Some (Inr st) \<Rightarrow> st
      | _ \<Rightarrow> milli_staged v)"

text \<open>
  The example engine \<open>k\<close> timeouts after a ping has been sent at time 0 and nothing has
  been received: the ping is the head of the queue, its request stands under the
  identifier \<^verbatim>\<open>5\<close> of the expected response, and it has been written \<open>k + 1\<close> times.
\<close>

definition ping_state :: "nat \<Rightarrow> engine" where
  "ping_state k = example_engine
     \<lparr>responseMap := (\<lambda>x. None)(''5'' \<mapsto>
        \<lparr>expect = ''5'', orgCmdId = ''1'', timerId = k, doRetry = 3 - of_nat k,
         sentTime = k * 6000\<rparr>),
      cmdQ := \<lparr>cmdMessageQ = [\<lparr>cmdStr = ''154'', priority = 1, maxRetries = 3\<rparr>],
               compression = True\<rparr>,
      port := map (\<lambda>i. (i * 6000, '':154'' @ [CHR 0x0A])) [0..<Suc k],
      maxResponseTime := k * 6000,
      timers := [(k, Suc k * 6000,
                  ResponseTimeout \<lparr>cmdStr = ''154'', priority = 1, maxRetries = 3\<rparr>)],
      nextTimerId := Suc k\<rparr>"

text \<open>
  The same for a get of the address \<^verbatim>\<open>0xED8D\<close> with \<open>n\<close> retries, after \<open>k\<close> timeouts, and
  the engine once the command has been dropped.
\<close>

definition get_state :: "nat \<Rightarrow> nat \<Rightarrow> engine" where
  "get_state n k = example_engine
     \<lparr>responseMap := (\<lambda>x. None)(''78DED'' \<mapsto>
        \<lparr>expect = ''78DED00'', orgCmdId = ''78DED'', timerId = k, doRetry = of_nat n - of_nat k,
         sentTime = k * 6000\<rparr>),
      cmdQ := \<lparr>cmdMessageQ = [\<lparr>cmdStr = ''78DED00D4'', priority = 1, maxRetries = of_nat n\<rparr>],
               compression = True\<rparr>,
      port := map (\<lambda>i. (i * 6000, '':78DED00D4'' @ [CHR 0x0A])) [0..<Suc k],
      maxResponseTime := k * 6000,
      timers := [(k, Suc k * 6000,
                  ResponseTimeout \<lparr>cmdStr = ''78DED00D4'', priority = 1, maxRetries = of_nat n\<rparr>)],
      nextTimerId := Suc k\<rparr>"

definition dropped_state :: "nat \<Rightarrow> engine" where
  "dropped_state n = example_engine
     \<lparr>responseMap := (\<lambda>x. None),
      cmdQ := \<lparr>cmdMessageQ = [], compression = True\<rparr>,
      port := map (\<lambda>i. (i * 6000, '':78DED00D4'' @ [CHR 0x0A])) [0..<Suc n],
      maxResponseTime := Suc n * 6000,
      timers := [],
      nextTimerId := Suc n\<rparr>"


section \<open>Properties of the checksum and of the endian swap\<close>

lemma parseInt16_toUpperCase_char: "parseInt16 (toUpperCase_char c) = parseInt16 c"
  by (auto simp: parseInt16_def toUpperCase_char_def Let_def)

lemma toUpperCase_char_idem: "toUpperCase_char (toUpperCase_char c) = toUpperCase_char c"
  by (auto simp: toUpperCase_char_def)

lemma toUpperCase_idem: "toUpperCase (toUpperCase s) = toUpperCase s"
  by (simp add: toUpperCase_def toUpperCase_char_idem)

lemma toUpperCase_append: "toUpperCase (xs @ ys) = toUpperCase xs @ toUpperCase ys"
  by (simp add: toUpperCase_def)

lemma length_toUpperCase: "length (toUpperCase s) = length s"
  by (simp add: toUpperCase_def)

lemma hex_bytes_toUpperCase: "hex_bytes (toUpperCase s) = hex_bytes s"
  by (induction s rule: hex_bytes.induct)
     (simp_all add: toUpperCase_def parseInt16_toUpperCase_char)

lemma list_all_is_hex_toUpperCase: "list_all is_hex (toUpperCase s) = list_all is_hex s"
  by (induction s) (simp_all add: toUpperCase_def is_hex_def parseInt16_toUpperCase_char)

lemma hex_bytes_append:
  "hex_bytes xs = Some bs \<Longrightarrow> hex_bytes ys = Some cs \<Longrightarrow> hex_bytes (xs @ ys) = Some (bs @ cs)"
  by (induction xs arbitrary: bs rule: hex_bytes.induct) (auto split: option.splits)

lemma hex_bytes_total:
  "list_all is_hex xs \<Longrightarrow> even (length xs) \<Longrightarrow> \<exists>bs. hex_bytes xs = Some bs"
  by (induction xs rule: hex_bytes.induct) (auto simp: is_hex_def)

lemma reduce_checksum_bytes:
  "hex_bytes xs = Some bs \<Longrightarrow> even i \<Longrightarrow>
   reduce_checksum (Some t) i (map parseInt16 xs) = Some (t + sum_list bs)"
proof (induction xs arbitrary: bs t i rule: hex_bytes.induct)
  case 1
  then show ?case by simp
next
  case (2 c)
  then show ?case by simp
next
  case (3 h l cs)
  from "3.prems"(1) obtain a b bs' where
    h: "parseInt16 h = Some a" and l: "parseInt16 l = Some b"
    and cs: "hex_bytes cs = Some bs'" and bs: "bs = (16 * a + b) # bs'"
    by (auto split: option.splits)
  from "3.prems"(2) have odd: "Suc i mod 2 = 1" and ev: "i mod 2 = 0" and ev2: "even (Suc (Suc i))"
    by presburger+
  have "reduce_checksum (Some t) i (map parseInt16 (h # l # cs)) =
        reduce_checksum (Some (t + a * 16 + b)) (Suc (Suc i)) (map parseInt16 cs)"
    using h l odd ev by simp
  also have "\<dots> = Some (t + a * 16 + b + sum_list bs')"
    using "3.IH" cs ev2 by blast
  finally show ?case using bs by simp
qed

lemma js_rem_adjust:
  "(let c = js_rem x 256; c' = (if c < 0 then c + 256 else c) in c') = x mod 256"
proof (cases "x < 0")
  case False
  then show ?thesis by (cases "x = 0") (simp_all add: js_rem_def Let_def)
next
  case True
  then have s: "sgn x = -1" "\<bar>x\<bar> = - x" by simp_all
  have m: "(- x) mod 256 = (if x mod 256 = 0 then 0 else 256 - x mod 256)"
    by (rule zmod_zminus1_eq_if)
  have pos: "0 \<le> x mod 256" "x mod 256 < 256" by simp_all
  show ?thesis
  proof (cases "x mod 256 = 0")
    case True
    with m s show ?thesis by (simp add: js_rem_def Let_def)
  next
    case False
    with m have "js_rem x 256 = x mod 256 - 256" using s by (simp add: js_rem_def)
    with pos show ?thesis by (simp add: Let_def)
  qed
qed

lemma of_char_hex_digit:
  "d < 16 \<Longrightarrow> (of_char (hex_digit d) :: nat) = (if d < 10 then 48 + d else 87 + d)"
  by (simp add: hex_digit_def)

lemma parseInt16_hex_digit: "d < 16 \<Longrightarrow> parseInt16 (toUpperCase_char (hex_digit d)) = Some d"
  unfolding parseInt16_toUpperCase_char
  by (simp add: parseInt16_def of_char_hex_digit Let_def)

lemma two_digits:
  assumes "c < 256"
  shows "hex_bytes (toUpperCase (slice_last 2 (CHR ''0'' # toString16 c))) = Some [c]"
proof (cases "c < 16")
  case True
  then have "toString16 c = [hex_digit c]" by (simp add: toString16.simps)
  moreover have "parseInt16 (toUpperCase_char CHR ''0'') = Some 0"
    by (simp add: parseInt16_toUpperCase_char) (simp add: parseInt16_def)
  ultimately show ?thesis using True
    by (simp add: slice_last_def toUpperCase_def parseInt16_hex_digit)
next
  case False
  with assms have d: "c div 16 < 16" "c mod 16 < 16" by simp_all
  from False d have "toString16 c = [hex_digit (c div 16), hex_digit (c mod 16)]"
    by (simp add: toString16.simps[of c] toString16.simps[of "c div 16"])
  then show ?thesis using d
    by (simp add: slice_last_def toUpperCase_def parseInt16_hex_digit)
qed

lemma append_checksum_sum:
  assumes hex: "list_all is_hex cmd" and odd: "odd (length cmd)"
  shows "byte_sum_mod (CHR ''0'' # append_checksum cmd) = Some 0x55"
proof -
  have "list_all is_hex (CHR ''0'' # cmd)" using hex by (simp add: is_hex_def parseInt16_def)
  moreover have "even (length (CHR ''0'' # cmd))" using odd by simp
  ultimately obtain bs where bs: "hex_bytes (CHR ''0'' # cmd) = Some bs"
    using hex_bytes_total by blast
  have red: "reduce_checksum (Some 0) 0 (map parseInt16 (CHR ''0'' # cmd)) = Some (sum_list bs)"
    using reduce_checksum_bytes[OF bs, of 0 0] by simp
  define c where "c = nat ((0x55 - int (sum_list bs)) mod 256)"
  have c: "c < 256" by (simp add: c_def)
  have ac: "append_checksum cmd = cmd @ toUpperCase (slice_last 2 (CHR ''0'' # toString16 c))"
    unfolding append_checksum_def Let_def red option.case
    using js_rem_adjust[of "0x55 - int (sum_list bs)"]
    by (simp add: Let_def c_def)
  have "hex_bytes (CHR ''0'' # append_checksum cmd) = Some (bs @ [c])"
    using hex_bytes_append[OF bs two_digits[OF c]] by (simp add: ac)
  moreover have "(sum_list bs + c) mod 256 = 0x55"
  proof -
    have "(int (sum_list bs) + (0x55 - int (sum_list bs)) mod 256) mod 256 = 0x55 mod 256"
      by (simp add: mod_add_right_eq)
    moreover have "int c = (0x55 - int (sum_list bs)) mod 256" by (simp add: c_def)
    ultimately have "int ((sum_list bs + c) mod 256) = 0x55"
      by (simp add: zmod_int)
    then show ?thesis by linarith
  qed
  ultimately show ?thesis by (simp add: byte_sum_mod_def)
qed

lemmas command_codes =
  pingCommand_def versionCommand_def productIdCommand_def restartCommand_def
  getCommand_def setCommand_def pingResponse_def doneResponse_def unknownResponse_def

lemma pad_zero_replicate:
  "pad_zero s n = replicate (2 * n - length s) (CHR ''0'') @ s"
proof (induction s n rule: pad_zero.induct)
  case (1 hexStr lengthInBytes)
  show ?case
  proof (cases "length hexStr < 2 * lengthInBytes")
    case True
    then have "2 * lengthInBytes - length hexStr = Suc (2 * lengthInBytes - Suc (length hexStr))"
      by simp
    with True 1 show ?thesis
      by (simp add: pad_zero.simps[of hexStr] replicate_app_Cons_same)
  next
    case False
    then show ?thesis by (simp add: pad_zero.simps[of hexStr])
  qed
qed

lemma is_hex_zero: "is_hex (CHR ''0'')"
  by (simp add: is_hex_def parseInt16_def)

lemma endianSwap_2_shape:
  assumes "list_all is_hex a"
  shows "length (endianSwap a 2) = 4 \<and> list_all is_hex (endianSwap a 2)"
proof -
  define s0 where "s0 = pad_zero a 2"
  have len: "4 \<le> length s0" and hex: "list_all is_hex s0"
    using assms by (auto simp: s0_def pad_zero_replicate list_all_iff is_hex_zero)
  define s1 where "s1 = substring s0 2 4 @ substring s0 0 2"
  have l1: "length s1 = 4" using len by (simp add: s1_def substring_def)
  have h1: "list_all is_hex s1"
    using hex by (auto simp: s1_def substring_def list_all_iff dest: in_set_takeD in_set_dropD)
  have "endianSwap a 2 = toUpperCase s1"
    using len l1 by (simp add: endianSwap_def Let_def s0_def[symmetric] s1_def[symmetric])
  then show ?thesis using l1 h1 by (simp add: length_toUpperCase list_all_is_hex_toUpperCase)
qed

lemma endianSwap_twice_2:
  assumes "length s = 4"
  shows "endianSwap (endianSwap s 2) 2 = toUpperCase s"
proof -
  from assms obtain a b c d where s: "s = [a, b, c, d]"
    by (auto simp: length_Suc_conv numeral_eq_Suc)
  have "endianSwap s 2 = toUpperCase [c, d, a, b]"
    by (simp add: s endianSwap_def Let_def pad_zero.simps substring_def)
  moreover have "endianSwap (toUpperCase [c, d, a, b]) 2 = toUpperCase (toUpperCase [a, b, c, d])"
    by (simp add: endianSwap_def Let_def pad_zero.simps substring_def toUpperCase_def)
  ultimately show ?thesis by (simp add: s toUpperCase_idem)
qed

lemma createMessage_sum_plain:
  assumes "list_all is_hex cmd" "length cmd = 1"
  shows "byte_sum_mod (CHR ''0'' # createMessage cmd '''' '''') = Some 0x55"
proof -
  have "byte_sum_mod (CHR ''0'' # toUpperCase (append_checksum cmd))
        = byte_sum_mod (toUpperCase (CHR ''0'' # append_checksum cmd))"
    by (simp add: toUpperCase_def toUpperCase_char_def)
  also have "\<dots> = byte_sum_mod (CHR ''0'' # append_checksum cmd)"
    by (simp only: byte_sum_mod_def hex_bytes_toUpperCase)
  also have "\<dots> = Some 0x55"
    using assms by (intro append_checksum_sum) simp_all
  finally show ?thesis by (simp add: createMessage_def)
qed

lemma createMessage_sum_addressed:
  assumes cmd: "list_all is_hex cmd" "length cmd = 1"
    and addr: "wf_address address" and val: "wf_value val"
  shows "byte_sum_mod (CHR ''0'' # createMessage cmd address val) = Some 0x55"
proof -
  define body where "body = cmd @ endianSwap (drop 2 address) 2 @ ''00'' @ val"
  from addr have long: "length address > 2" and ahex: "list_all is_hex (drop 2 address)"
    by (auto simp: wf_address_def)
  note sh = endianSwap_2_shape[OF ahex]
  have hex: "list_all is_hex body"
    using cmd sh val by (simp add: body_def wf_value_def is_hex_zero)
  have odd: "odd (length body)"
    using cmd sh val by (simp add: body_def wf_value_def)
  have cm: "createMessage cmd address val = toUpperCase (append_checksum body)"
    using long by (simp add: createMessage_def body_def)
  have "byte_sum_mod (CHR ''0'' # toUpperCase (append_checksum body))
        = byte_sum_mod (toUpperCase (CHR ''0'' # append_checksum body))"
    by (simp add: toUpperCase_def toUpperCase_char_def)
  also have "\<dots> = byte_sum_mod (CHR ''0'' # append_checksum body)"
    by (simp only: byte_sum_mod_def hex_bytes_toUpperCase)
  also have "\<dots> = Some 0x55"
    using hex odd by (rule append_checksum_sum)
  finally show ?thesis by (simp add: cm)
qed

lemma wf_value_Nil: "wf_value ''''"
  by (simp add: wf_value_def)

text \<open>
  Claim C1. Every command the facade sends (ping, version, product id, restart, and get
  and set with an address \<^verbatim>\<open>0x\<close> plus one to four hexadecimal digits and a value of
  digit pairs) has a wire body which, with a \<^verbatim>\<open>0\<close> in front and read as bytes, sums to
  \<^verbatim>\<open>0x55\<close> modulo 256.
\<close>

theorem outbound_checksum:
  "byte_sum_mod (CHR ''0'' # cmdStr (facade_ping cfg p force)) = Some 0x55
   \<and> byte_sum_mod (CHR ''0'' # cmdStr (facade_app_version cfg p force)) = Some 0x55
   \<and> byte_sum_mod (CHR ''0'' # cmdStr (facade_productId cfg p force)) = Some 0x55
   \<and> byte_sum_mod (CHR ''0'' # restart_body) = Some 0x55
   \<and> (wf_address address \<longrightarrow>
        byte_sum_mod (CHR ''0'' # cmdStr (facade_get cfg address p force)) = Some 0x55)
   \<and> (wf_address address \<and> wf_value val \<longrightarrow>
        byte_sum_mod (CHR ''0'' # cmdStr (facade_set cfg address val p force)) = Some 0x55)"
proof -
  have one: "\<And>c. is_hex c \<Longrightarrow>
      byte_sum_mod (CHR ''0'' # createMessage [c] '''' '''') = Some 0x55"
    by (rule createMessage_sum_plain) simp_all
  have d: "is_hex CHR ''1''" "is_hex CHR ''3''" "is_hex CHR ''4''" "is_hex CHR ''6''"
    "is_hex CHR ''7''" "is_hex CHR ''8''"
    by (simp_all add: is_hex_def parseInt16_def)
  have r: "byte_sum_mod (CHR ''0'' # restart_body) = Some 0x55"
    unfolding restart_body_def restartCommand_def
    by (rule append_checksum_sum) (simp_all add: d)
  show ?thesis
    using one d r createMessage_sum_addressed[of "''7''" address "''''"]
      createMessage_sum_addressed[of "''8''" address val]
    by (simp add: facade_ping_def facade_app_version_def facade_productId_def
        facade_get_def facade_set_def Command_def command_codes wf_value_Nil)
qed

theorem outbound_checksum_witness:
  "wf_address ''0xED8D'' \<and> wf_value ''01''
   \<and> byte_sum_mod (CHR ''0'' # cmdStr (facade_get default_config ''0xED8D'' Undefined False)) = Some 0x55
   \<and> byte_sum_mod (CHR ''0'' # cmdStr (facade_set default_config ''0xED8D'' ''01'' Undefined False)) = Some 0x55"
proof -
  have a: "wf_address ''0xED8D''" by (simp add: wf_address_def is_hex_def parseInt16_def)
  have v: "wf_value ''01''" by (simp add: wf_value_def is_hex_def parseInt16_def)
  show ?thesis
    using a v outbound_checksum[of default_config Undefined False "''0xED8D''" "''01''"]
    by simp
qed

text \<open>
  Claim C9. The body \<^verbatim>\<open>7ED8D00\<close> does not get the digits \<^verbatim>\<open>A1\<close>: with them the bytes of
  \<^verbatim>\<open>07ED8D00A1\<close> sum to \<^verbatim>\<open>0x22\<close> modulo 256.
\<close>

theorem checksum_7ED8D00_is_not_A1:
  "append_checksum ''7ED8D00'' \<noteq> ''7ED8D00A1''
   \<and> package (append_checksum ''7ED8D00'') \<noteq> '':7ED8D00A1'' @ [CHR 0x0A]
   \<and> byte_sum_mod ''07ED8D00A1'' = Some 0x22"
  by code_simp

text \<open>
  Claim C9, amended. \<^verbatim>\<open>append_checksum\<close> appends \<^verbatim>\<open>D4\<close> to the body \<^verbatim>\<open>7ED8D00\<close>, the
  framed wire string is \<^verbatim>\<open>:7ED8D00D4\<close> followed by a line feed, and the bytes of
  \<^verbatim>\<open>07ED8D00D4\<close> sum to \<^verbatim>\<open>0x55\<close> modulo 256.
\<close>

theorem checksum_7ED8D00_is_D4:
  "append_checksum ''7ED8D00'' = ''7ED8D00D4''
   \<and> package (append_checksum ''7ED8D00'') = '':7ED8D00D4'' @ [CHR 0x0A]
   \<and> byte_sum_mod (CHR ''0'' # append_checksum ''7ED8D00'') = Some 0x55"
  by code_simp

text \<open>
  Swapping a string of four characters twice with width 2 gives the string back in
  upper case.
\<close>

lemma endianSwap_involutive_2:
  "length s = 4 \<Longrightarrow> endianSwap (endianSwap s 2) 2 = toUpperCase s"
  by (rule endianSwap_twice_2)

text \<open>With width 4 the swap of eight characters keeps four of them.\<close>

lemma endianSwap_4_truncates:
  assumes "length s = 8"
  shows "length (endianSwap s 4) = 4"
proof -
  have "pad_zero s 4 = s" using assms by (simp add: pad_zero.simps)
  then show ?thesis
    using assms by (simp add: endianSwap_def Let_def substring_def length_toUpperCase)
qed

text \<open>
  Claim C6. On the eight digits \<^verbatim>\<open>12345678\<close> the swap of width 4 returns \<^verbatim>\<open>3412\<close>, and
  swapping that again returns \<^verbatim>\<open>0000\<close>: the swap is not involutive on 4-byte inputs.
\<close>

theorem endianSwap_4_not_involutive:
  "endianSwap ''12345678'' 4 = ''3412'' \<and> endianSwap (endianSwap ''12345678'' 4) 4 = ''0000''"
  by code_simp

text \<open>
  Claim C10 says that a command of zero retries cannot be created through the
  constructor and that the stored priority is 0 or 1. The code does otherwise, and by
  the design of its setters, which clamp with \<^verbatim>\<open>Math.max(0, ...)\<close> and
  \<^verbatim>\<open>Math.min(1, ...)\<close>: the argument \<^verbatim>\<open>-1\<close> for \<^verbatim>\<open>maxRetries\<close> is truthy and is raised to
  0, and the priority \<^verbatim>\<open>0.5\<close> lies between the bounds and is stored as it is. A
  configured default of 0 retries gives a command of zero retries as well.
\<close>

theorem zero_retry_command_constructed:
  "truthy (Number (- 1))
   \<and> maxRetries (Command default_config pingCommand '''' '''' Undefined (Number (- 1))) = 0
   \<and> priority (Command default_config pingCommand '''' '''' (Number (1 / 2)) Undefined) = 1 / 2
   \<and> priority (Command default_config pingCommand '''' '''' (Number (1 / 2)) Undefined) \<notin> {0, 1}
   \<and> maxRetries (Command (default_config\<lparr>cmdDefaultMaxRetries := 0\<rparr>) pingCommand '''' ''''
         Undefined Undefined) = 0"
  by (simp add: Command_def setMaxRetries_def setPriority_def default_config_def Let_def)

text \<open>
  Claim C10, amended. A falsy \<^verbatim>\<open>maxRetries\<close> argument (0, \<^verbatim>\<open>null\<close>, \<^verbatim>\<open>undefined\<close>, \<^verbatim>\<open>NaN\<close>,
  \<^verbatim>\<open>false\<close>, the empty string) gives the configured default, which is 3 as declared, and
  in general the default raised to 0 if it is negative; a number \<open>n\<close> other than 0 gives
  \<open>n\<close> raised to 0 if it is negative. So the constructor makes a command of zero
  retries exactly when the argument is a negative number, or is falsy while the
  configured default is not positive. A falsy \<^verbatim>\<open>priority\<close> gives the configured default
  priority, which is 0 as declared, and in general the default clamped between 0 and 1; a
  number \<open>x\<close> other than 0 gives \<open>x\<close> clamped between 0 and 1. The stored priority always
  lies in the interval from 0 to 1, and it is 0 or 1 when the argument is an integer and
  the default is one.
\<close>

theorem constructor_defaults:
  "(\<not> truthy mr \<longrightarrow> maxRetries (Command default_config cmd a v p mr) = 3)
   \<and> (\<not> truthy mr \<longrightarrow>
        maxRetries (Command cfg cmd a v p mr) = max 0 (cmdDefaultMaxRetries cfg))
   \<and> (mr = Number n \<and> n \<noteq> 0 \<longrightarrow> maxRetries (Command cfg cmd a v p mr) = max 0 n)
   \<and> (maxRetries (Command cfg cmd a v p mr) = 0 \<longleftrightarrow>
        (truthy mr \<and> number_of mr < 0) \<or> (\<not> truthy mr \<and> cmdDefaultMaxRetries cfg \<le> 0))
   \<and> (\<not> truthy p \<longrightarrow> priority (Command default_config cmd a v p mr) = 0)
   \<and> (\<not> truthy p \<longrightarrow>
        priority (Command cfg cmd a v p mr) = max 0 (min 1 (cmdDefaultPriority cfg)))
   \<and> (p = Number x \<and> x \<noteq> 0 \<longrightarrow> priority (Command cfg cmd a v p mr) = max 0 (min 1 x))
   \<and> 0 \<le> priority (Command cfg cmd a v p mr) \<and> priority (Command cfg cmd a v p mr) \<le> 1
   \<and> ((\<exists>i. number_of p = of_int i) \<and> (\<exists>i. cmdDefaultPriority cfg = of_int i) \<longrightarrow>
        priority (Command cfg cmd a v p mr) \<in> {0, 1})"
proof -
  have int_clamp: "max 0 (min 1 (of_int i :: rat)) \<in> {0, 1}" for i :: int
  proof -
    have "i \<le> 0 \<or> 1 \<le> i" by linarith
    then show ?thesis
    proof
      assume "i \<le> 0"
      then have "(of_int i :: rat) \<le> 0" by simp
      then show ?thesis by (simp add: max_def min_def)
    next
      assume "1 \<le> i"
      then have "(1 :: rat) \<le> of_int i" by simp
      then show ?thesis by (simp add: max_def min_def)
    qed
  qed
  have m: "maxRetries (Command cfg cmd a v p mr)
      = max 0 (if truthy mr then number_of mr else cmdDefaultMaxRetries cfg)" for cfg
    by (simp add: Command_def setMaxRetries_def Let_def)
  have q: "priority (Command cfg cmd a v p mr)
      = max 0 (min 1 (if truthy p then number_of p else cmdDefaultPriority cfg))" for cfg
    by (simp add: Command_def setPriority_def Let_def)
  have z: "maxRetries (Command cfg cmd a v p mr) = 0 \<longleftrightarrow>
        (truthy mr \<and> number_of mr < 0) \<or> (\<not> truthy mr \<and> cmdDefaultMaxRetries cfg \<le> 0)"
    unfolding m by (cases mr) (auto simp: max_def)
  have i: "(\<exists>i. number_of p = of_int i) \<and> (\<exists>i. cmdDefaultPriority cfg = of_int i) \<longrightarrow>
        priority (Command cfg cmd a v p mr) \<in> {0, 1}"
    unfolding q using int_clamp by (cases "truthy p") auto
  have b: "0 \<le> priority (Command cfg cmd a v p mr) \<and> priority (Command cfg cmd a v p mr) \<le> 1"
    unfolding q by (simp add: max_def min_def)
  have d1: "\<not> truthy mr \<longrightarrow> maxRetries (Command default_config cmd a v p mr) = 3"
    by (simp add: m default_config_def)
  have d2: "\<not> truthy mr \<longrightarrow>
        maxRetries (Command cfg cmd a v p mr) = max 0 (cmdDefaultMaxRetries cfg)"
    by (simp add: m)
  have d3: "mr = Number n \<and> n \<noteq> 0 \<longrightarrow> maxRetries (Command cfg cmd a v p mr) = max 0 n"
    by (simp add: Command_def setMaxRetries_def Let_def)
  have p1: "\<not> truthy p \<longrightarrow> priority (Command default_config cmd a v p mr) = 0"
    by (simp add: q default_config_def)
  have p2: "\<not> truthy p \<longrightarrow>
        priority (Command cfg cmd a v p mr) = max 0 (min 1 (cmdDefaultPriority cfg))"
    by (simp add: q)
  have p3: "p = Number x \<and> x \<noteq> 0 \<longrightarrow>
        priority (Command cfg cmd a v p mr) = max 0 (min 1 x)"
    by (simp add: Command_def setPriority_def Let_def)
  from d1 d2 d3 z p1 p2 p3 b i show ?thesis by blast
qed

theorem constructor_defaults_witness:
  "\<not> truthy (Number 0) \<and> \<not> truthy Null
   \<and> maxRetries (Command default_config ''7'' ''0xED8D'' '''' Null (Number 0)) = 3
   \<and> priority (Command default_config ''7'' ''0xED8D'' '''' Null (Number 0)) = 0
   \<and> priority (Command default_config ''7'' ''0xED8D'' '''' Null (Number 0)) \<in> {0, 1}
   \<and> maxRetries (Command default_config ''7'' ''0xED8D'' '''' (Number (3 / 4)) (Number (- 2))) = 0
   \<and> priority (Command default_config ''7'' ''0xED8D'' '''' (Number (3 / 4)) (Number (- 2))) = 3 / 4
   \<and> maxRetries (Command default_config ''7'' ''0xED8D'' '''' (Number 7) (Number (5 / 2))) = 5 / 2
   \<and> priority (Command default_config ''7'' ''0xED8D'' '''' (Number 7) (Number (5 / 2))) = 1"
  using constructor_defaults [of "Number 0" "''7''" "''0xED8D''" "''''" Null default_config 0 0]
    constructor_defaults [of "Number (- 2)" "''7''" "''0xED8D''" "''''" "Number (3 / 4)"
      default_config "- 2" "3 / 4"]
    constructor_defaults [of "Number (5 / 2)" "''7''" "''0xED8D''" "''''" "Number 7"
      default_config "5 / 2" 7]
  by (simp add: default_config_def)

section \<open>Properties of the command queue\<close>

lemma indexLoop_spec:
  assumes "0 \<le> i"
  shows "-1 \<le> indexLoop q p i" and "indexLoop q p i < i"
    and "0 < i \<Longrightarrow> 0 \<le> indexLoop q p i"
    and "\<And>j. indexLoop q p i < j \<Longrightarrow> j < i \<Longrightarrow> priority (q ! nat j) < p"
    and "0 < indexLoop q p i \<Longrightarrow> p \<le> priority (q ! nat (indexLoop q p i))"
  using assms
proof (induction q p i rule: indexLoop.induct)
  case (1 q prio i)
  let ?c = "i - 1 > 0 \<and> priority (q ! nat (i - 1)) < prio"
  have eq: "indexLoop q prio i = (if ?c then indexLoop q prio (i - 1) else i - 1)"
    by (subst indexLoop.simps) (simp add: Let_def)
  have stop: "\<not> ?c \<Longrightarrow> indexLoop q prio i = i - 1"
    using eq by (simp only: if_False)
  have go: "?c \<Longrightarrow> indexLoop q prio i = indexLoop q prio (i - 1)"
    using eq by simp
  have pos: "?c \<Longrightarrow> 0 \<le> i - 1" by simp
  {
    case 1
    show ?case
    proof (cases ?c)
      case True
      then show ?thesis using "1.IH"(1)[of "i - 1"] go by simp
    next
      case False
      then show ?thesis using stop \<open>0 \<le> i\<close> by simp
    qed
  next
    case 2
    show ?case
    proof (cases ?c)
      case True
      then show ?thesis using "1.IH"(2)[of "i - 1"] go by simp
    next
      case False
      then show ?thesis using stop by simp
    qed
  next
    case 3
    show ?case
    proof (cases ?c)
      case True
      then show ?thesis using "1.IH"(3)[of "i - 1"] go by simp
    next
      case False
      then show ?thesis using stop \<open>0 < i\<close> by simp
    qed
  next
    case (4 j)
    show ?case
    proof (cases ?c)
      case True
      show ?thesis
      proof (cases "j = i - 1")
        case True
        with \<open>?c\<close> show ?thesis by simp
      next
        case False
        with 4 have "j < i - 1" by simp
        moreover from 4 go[OF \<open>?c\<close>] have "indexLoop q prio (i - 1) < j" by simp
        ultimately show ?thesis using "1.IH"(4)[of "i - 1" j] \<open>?c\<close> by simp
      qed
    next
      case False
      with 4 stop show ?thesis by simp
    qed
  next
    case 5
    show ?case
    proof (cases ?c)
      case True
      then show ?thesis using "1.IH"(5)[of "i - 1"] go 5 by simp
    next
      case False
      from stop[OF False] 5 have "i - 1 > 0" by simp
      with False have "\<not> priority (q ! nat (i - 1)) < prio" by simp
      then show ?thesis using stop[OF False] by simp
    qed
  }
qed

lemma indexForPriority_le: "indexForPriority q p \<le> length (cmdMessageQ q)"
  using indexLoop_spec(2)[of "int (length (cmdMessageQ q))" "cmdMessageQ q" p]
  by (simp add: indexForPriority_def)

lemma indexForPriority_Nil: "cmdMessageQ q = [] \<Longrightarrow> indexForPriority q p = 0"
  by (simp add: indexForPriority_def indexLoop.simps)

lemma indexForPriority_ge1: "cmdMessageQ q \<noteq> [] \<Longrightarrow> 1 \<le> indexForPriority q p"
  using indexLoop_spec(3)[of "int (length (cmdMessageQ q))" "cmdMessageQ q" p]
  by (simp add: indexForPriority_def)

lemma indexForPriority_after:
  assumes "indexForPriority q p \<le> j" "j < length (cmdMessageQ q)"
  shows "priority (cmdMessageQ q ! j) < p"
proof -
  let ?r = "indexLoop (cmdMessageQ q) p (int (length (cmdMessageQ q)))"
  have b: "-1 \<le> ?r" by (rule indexLoop_spec(1)) simp
  from assms b have "?r < int j" by (simp add: indexForPriority_def)
  from indexLoop_spec(4)[of "int (length (cmdMessageQ q))" "cmdMessageQ q" p "int j"] this assms(2)
  show ?thesis by simp
qed

lemma indexForPriority_before:
  assumes "1 < indexForPriority q p"
  shows "p \<le> priority (cmdMessageQ q ! (indexForPriority q p - 1))"
proof -
  let ?r = "indexLoop (cmdMessageQ q) p (int (length (cmdMessageQ q)))"
  from assms have r: "0 < ?r" and e: "indexForPriority q p - Suc 0 = nat ?r"
    by (simp_all add: indexForPriority_def)
  from indexLoop_spec(5)[OF _ r] show ?thesis by (simp add: e)
qed

lemma sorted_take_drop:
  assumes "sorted_wrt (\<lambda>a b. a \<ge> b) (t :: rat list)" "a \<le> b"
  shows "sorted_wrt (\<lambda>a b. a \<ge> b) (take a t @ drop b t)"
proof -
  have "\<forall>x\<in>set (take a t). \<forall>y\<in>set (drop b t). x \<ge> y"
  proof (intro ballI)
    fix x y assume "x \<in> set (take a t)" "y \<in> set (drop b t)"
    then obtain i j where i: "i < length (take a t)" "x = take a t ! i"
      and j: "j < length (drop b t)" "y = drop b t ! j"
      by (auto simp: in_set_conv_nth)
    then have "x = t ! i" "y = t ! (b + j)" "i < b + j" "b + j < length t"
      using assms(2) by auto
    with assms(1) show "x \<ge> y" by (auto simp: sorted_wrt_iff_nth_less)
  qed
  with assms(1) show ?thesis
    by (simp add: sorted_wrt_append sorted_wrt_take sorted_wrt_drop)
qed

lemma sorted_take_ins_drop:
  assumes "sorted_wrt (\<lambda>a b. a \<ge> b) (t :: rat list)" "a \<le> b"
    and "\<forall>x\<in>set (take a t). x \<ge> p" and "\<forall>y\<in>set (drop b t). p \<ge> y"
  shows "sorted_wrt (\<lambda>a b. a \<ge> b) (take a t @ [p] @ drop b t)"
  using sorted_take_drop[OF assms(1,2)] assms(3,4)
  by (auto simp: sorted_wrt_append)

lemma tail_descending_Cons:
  "cmdMessageQ q = c # cs \<Longrightarrow>
   tail_descending q = sorted_wrt (\<lambda>a b. a \<ge> b) (map priority cs)"
  by (simp add: tail_descending_def)

lemma push_facts:
  assumes q: "cmdMessageQ q = c # cs" and td: "tail_descending q"
  obtains k where "indexForPriority q p = Suc k" "k \<le> length cs"
    "\<forall>y\<in>set (drop k (map priority cs)). p \<ge> y"
    "\<forall>x\<in>set (take k (map priority cs)). x \<ge> p"
    "\<forall>x\<in>set (take (k - 1) (map priority cs)). x \<ge> p"
proof -
  let ?l = "indexForPriority q p"
  let ?t = "map priority cs"
  from q have "1 \<le> ?l" by (intro indexForPriority_ge1) simp
  then obtain k where k: "?l = Suc k" by (cases ?l) auto
  from indexForPriority_le[of q p] q k have kl: "k \<le> length cs" by simp
  have after: "\<forall>y\<in>set (drop k ?t). p \<ge> y"
  proof
    fix y assume "y \<in> set (drop k ?t)"
    then obtain j where j: "j < length (drop k ?t)" "y = drop k ?t ! j"
      by (auto simp: in_set_conv_nth)
    then have "y = priority (cmdMessageQ q ! (Suc (k + j)))" "Suc (k + j) < length (cmdMessageQ q)"
      using q by auto
    with indexForPriority_after[of q p "Suc (k + j)"] k show "p \<ge> y" by simp
  qed
  have sorted: "sorted_wrt (\<lambda>a b. a \<ge> b) ?t"
    using td q by (simp add: tail_descending_Cons)
  have before: "\<forall>x\<in>set (take k ?t). x \<ge> p"
  proof
    fix x assume "x \<in> set (take k ?t)"
    then obtain i where i: "i < k" "i < length cs" "x = ?t ! i"
      by (auto simp: in_set_conv_nth)
    from i have k0: "1 < ?l" using k by simp
    from indexForPriority_before[OF k0] k q i kl
    have pk: "p \<le> ?t ! (k - 1)" by (cases k) simp_all
    show "x \<ge> p"
    proof (cases "i = k - 1")
      case True
      with pk i show ?thesis by simp
    next
      case False
      with i have "i < k - 1" "k - 1 < length ?t" using kl by simp_all
      with sorted have "?t ! i \<ge> ?t ! (k - 1)" by (simp add: sorted_wrt_iff_nth_less)
      with pk i show ?thesis by simp
    qed
  qed
  have before': "\<forall>x\<in>set (take (k - 1) ?t). x \<ge> p"
    using before set_take_subset_set_take[of "k - 1" k "map priority cs"] by auto
  from k kl after before before' show thesis by (rule that)
qed

lemma Q_push_back_tail_descending:
  assumes "tail_descending q"
  shows "tail_descending (Q_push_back cmd q)"
proof (cases "cmdMessageQ q")
  case Nil
  then show ?thesis
    by (simp add: Q_push_back_def indexForPriority_Nil insertPriority_def tail_descending_def)
next
  case (Cons c cs)
  from push_facts[OF Cons assms, of "priority cmd"] obtain k where
    k: "indexForPriority q (priority cmd) = Suc k" "k \<le> length cs"
    and after: "\<forall>y\<in>set (drop k (map priority cs)). priority cmd \<ge> y"
    and before: "\<forall>x\<in>set (take k (map priority cs)). x \<ge> priority cmd"
    and before': "\<forall>x\<in>set (take (k - 1) (map priority cs)). x \<ge> priority cmd"
    by blast
  have sorted: "sorted_wrt (\<lambda>a b. a \<ge> b) (map priority cs)"
    using assms Cons by (simp add: tail_descending_Cons)
  have ins: "tail_descending (insertPriority cmd (Suc k) q)"
    using sorted_take_ins_drop[OF sorted le_refl before after]
    by (simp add: insertPriority_def tail_descending_def Cons take_map drop_map)
  have upd: "k > 0 \<Longrightarrow> tail_descending (q\<lparr>cmdMessageQ := (cmdMessageQ q)[k := cmd]\<rparr>)"
  proof -
    assume "k > 0"
    then obtain m where m: "k = Suc m" by (cases k) auto
    with k have ml: "m < length cs" by simp
    have "sorted_wrt (\<lambda>a b. a \<ge> b)
            (take m (map priority cs) @ [priority cmd] @ drop (Suc m) (map priority cs))"
      using sorted_take_ins_drop[OF sorted _ _ after, of m] before' m by simp
    then show ?thesis
      using ml by (simp add: tail_descending_def Cons m upd_conv_take_nth_drop take_map drop_map)
  qed
  show ?thesis
    using ins upd assms by (auto simp: Q_push_back_def Let_def k)
qed

lemma Q_del_tail_descending:
  assumes "tail_descending q"
  shows "tail_descending (Q_del i q)"
proof (cases "cmdMessageQ q")
  case Nil
  then show ?thesis using assms by (auto simp: Q_del_def)
next
  case (Cons c cs)
  have sorted: "sorted_wrt (\<lambda>a b. a \<ge> b) (map priority cs)"
    using assms Cons by (simp add: tail_descending_Cons)
  show ?thesis
  proof (cases "i \<ge> 0 \<and> i < int (length (cmdMessageQ q))")
    case False
    then show ?thesis using assms by (auto simp: Q_del_def)
  next
    case True
    show ?thesis
    proof (cases "nat i")
      case 0
      have "sorted_wrt (\<lambda>a b. a \<ge> b) (map priority (tl cs))"
        using sorted by (cases cs) simp_all
      then show ?thesis using True 0 Cons by (simp add: Q_del_def tail_descending_def)
    next
      case (Suc m)
      have "sorted_wrt (\<lambda>a b. a \<ge> b) (take m (map priority cs) @ drop (Suc m) (map priority cs))"
        by (rule sorted_take_drop[OF sorted]) simp
      then show ?thesis using True Suc Cons
        by (simp add: Q_del_def tail_descending_def take_map drop_map)
    qed
  qed
qed

lemma Q_delete_tail_descending:
  "tail_descending q \<Longrightarrow> Q_delete ident q = Inr (r, q') \<Longrightarrow> tail_descending q'"
  by (auto simp: Q_delete_def Q_del_tail_descending split: sum.splits if_splits)

lemma raise_head_tail_descending:
  "tail_descending q \<Longrightarrow> tail_descending (raise_head cfg q)"
  by (auto simp: raise_head_def tail_descending_def split: list.splits)

lemma apply_op_tail_descending:
  assumes "tail_descending q"
  shows "tail_descending (apply_op cfg q op)"
proof (cases op)
  case (Push cmd)
  then show ?thesis using assms by (simp add: Q_push_back_tail_descending)
next
  case (Del i)
  then show ?thesis using assms by (simp add: Q_del_tail_descending)
next
  case (Delete ident)
  then show ?thesis using assms Q_delete_tail_descending[OF assms, of ident]
    by (auto split: sum.splits)
next
  case (SetCompression b)
  then show ?thesis using assms by (simp add: setCmdCompression_def tail_descending_def)
next
  case RaiseHead
  then show ?thesis using assms by (simp add: raise_head_tail_descending)
qed

lemma foldl_apply_op_tail_descending:
  "tail_descending q \<Longrightarrow> tail_descending (foldl (apply_op cfg) q ops)"
  by (induction ops arbitrary: q) (simp_all add: apply_op_tail_descending)

lemma run_ops_tail_descending: "tail_descending (run_ops cfg ops)"
  unfolding run_ops_def
  by (rule foldl_apply_op_tail_descending) (simp add: tail_descending_def new_CommandMessageQ_def)

lemma Q_push_back_head:
  assumes "cmdMessageQ q \<noteq> []"
  shows "hd (cmdMessageQ (Q_push_back cmd q)) = hd (cmdMessageQ q)"
proof -
  from assms obtain c cs where q: "cmdMessageQ q = c # cs" by (cases "cmdMessageQ q") auto
  from indexForPriority_ge1[OF assms, of "priority cmd"]
  obtain k where k: "indexForPriority q (priority cmd) = Suc k"
    by (cases "indexForPriority q (priority cmd)") auto
  show ?thesis
    by (cases k) (auto simp: Q_push_back_def Let_def k q insertPriority_def)
qed

lemma indexForPriority_tail:
  assumes "\<forall>x\<in>set (cmdMessageQ q). p \<le> priority x"
  shows "indexForPriority q p = length (cmdMessageQ q)"
proof (rule ccontr)
  assume "indexForPriority q p \<noteq> length (cmdMessageQ q)"
  with indexForPriority_le[of q p] have lt: "indexForPriority q p < length (cmdMessageQ q)"
    by simp
  from indexForPriority_after[OF le_refl lt] assms lt show False
    by (auto simp: all_set_conv_all_nth)
qed

lemma Q_push_back_cases:
  "cmdMessageQ (Q_push_back cmd q) =
     (let l = indexForPriority q (priority cmd); xs = cmdMessageQ q in
      if compression q \<and> l > 1 \<and> getId (xs ! (l - 1)) = getId cmd then xs[l - 1 := cmd]
      else if l = 0 \<or> getMessage (xs ! (l - 1)) \<noteq> getMessage cmd
      then take l xs @ [cmd] @ drop l xs
      else xs)"
  by (simp add: Q_push_back_def insertPriority_def Let_def)

text \<open>
  Claim C5, amended. In every queue state reached by insertions, deletions, changes of
  the compression flag and the engine's raising of the head's priority, priorities do
  not increase from index 1 to the tail (the head is not compared and may have a lower
  priority than its successor). An insertion into a queue that is not empty leaves the
  element at index 0 in place. The insertion index \<open>l\<close> is 0 for an empty queue and
  otherwise between 1 and the length; every entry from \<open>l\<close> on has a lower priority
  than the command, and the entry before \<open>l\<close>, when it is not the head, has at least
  the command's priority: a command of priority 1 goes right after the last entry of
  priority 1 behind the head, or to index 1. A command whose priority no entry
  undercuts, so one of priority 0, goes to the tail. This is where the command is put
  when it is neither merged into the entry before \<open>l\<close> by compression nor dropped as
  a repetition of it.
\<close>

theorem queue_order:
  "tail_descending (run_ops cfg ops)
   \<and> (tail_descending q \<longrightarrow> tail_descending (Q_push_back cmd q) \<and> tail_descending (Q_del i q))
   \<and> (cmdMessageQ q \<noteq> [] \<longrightarrow> hd (cmdMessageQ (Q_push_back cmd q)) = hd (cmdMessageQ q))
   \<and> (let l = indexForPriority q (priority cmd); xs = cmdMessageQ q in
        (xs = [] \<longrightarrow> l = 0)
        \<and> (xs \<noteq> [] \<longrightarrow> 1 \<le> l \<and> l \<le> length xs)
        \<and> (\<forall>j. l \<le> j \<and> j < length xs \<longrightarrow> priority (xs ! j) < priority cmd)
        \<and> (1 < l \<longrightarrow> priority cmd \<le> priority (xs ! (l - 1)))
        \<and> ((\<forall>x\<in>set xs. priority cmd \<le> priority x) \<longrightarrow> l = length xs)
        \<and> (\<not> (compression q \<and> l > 1 \<and> getId (xs ! (l - 1)) = getId cmd)
             \<and> (l = 0 \<or> getMessage (xs ! (l - 1)) \<noteq> getMessage cmd)
            \<longrightarrow> cmdMessageQ (Q_push_back cmd q) = take l xs @ [cmd] @ drop l xs))"
proof -
  have a: "tail_descending (run_ops cfg ops)" by (rule run_ops_tail_descending)
  have b: "tail_descending q \<longrightarrow> tail_descending (Q_push_back cmd q) \<and> tail_descending (Q_del i q)"
    by (simp add: Q_push_back_tail_descending Q_del_tail_descending)
  have c: "cmdMessageQ q \<noteq> [] \<longrightarrow> hd (cmdMessageQ (Q_push_back cmd q)) = hd (cmdMessageQ q)"
    by (simp add: Q_push_back_head)
  have d1: "cmdMessageQ q = [] \<longrightarrow> indexForPriority q (priority cmd) = 0"
    by (simp add: indexForPriority_Nil)
  have d2: "cmdMessageQ q \<noteq> [] \<longrightarrow> 1 \<le> indexForPriority q (priority cmd)
      \<and> indexForPriority q (priority cmd) \<le> length (cmdMessageQ q)"
    using indexForPriority_ge1[of q "priority cmd"] indexForPriority_le[of q "priority cmd"]
    by auto
  have d3: "\<forall>j. indexForPriority q (priority cmd) \<le> j \<and> j < length (cmdMessageQ q)
      \<longrightarrow> priority (cmdMessageQ q ! j) < priority cmd"
    by (simp add: indexForPriority_after)
  have d4: "1 < indexForPriority q (priority cmd) \<longrightarrow>
      priority cmd \<le> priority (cmdMessageQ q ! (indexForPriority q (priority cmd) - 1))"
    using indexForPriority_before[of q "priority cmd"] by simp
  have d5: "(\<forall>x\<in>set (cmdMessageQ q). priority cmd \<le> priority x) \<longrightarrow>
      indexForPriority q (priority cmd) = length (cmdMessageQ q)"
    by (simp add: indexForPriority_tail)
  have d6: "\<not> (compression q \<and> indexForPriority q (priority cmd) > 1
        \<and> getId (cmdMessageQ q ! (indexForPriority q (priority cmd) - 1)) = getId cmd)
      \<and> (indexForPriority q (priority cmd) = 0
         \<or> getMessage (cmdMessageQ q ! (indexForPriority q (priority cmd) - 1)) \<noteq> getMessage cmd)
      \<longrightarrow> cmdMessageQ (Q_push_back cmd q) =
          take (indexForPriority q (priority cmd)) (cmdMessageQ q) @ [cmd]
          @ drop (indexForPriority q (priority cmd)) (cmdMessageQ q)"
    by (auto simp: Q_push_back_cases Let_def)
  show ?thesis
    unfolding Let_def using a b c d1 d2 d3 d4 d5 d6 by blast
qed


lemma example_commands:
  "get_V = \<lparr>cmdStr = ''78DED00D4'', priority = 0, maxRetries = 3\<rparr>"
  "get_SOC_urgent = \<lparr>cmdStr = ''7FF0F0040'', priority = 1, maxRetries = 3\<rparr>"
  "set_relay = \<lparr>cmdStr = ''84E030001FB'', priority = 0, maxRetries = 3\<rparr>"
  "get_EEB6_urgent = \<lparr>cmdStr = ''7B6EE00AA'', priority = 1, maxRetries = 3\<rparr>"
  unfolding get_V_def get_SOC_urgent_def set_relay_def get_EEB6_urgent_def by code_simp+

lemma example_ids:
  "getId \<lparr>cmdStr = ''78DED00D4'', priority = p, maxRetries = m\<rparr> = ''78DED''"
  "getId \<lparr>cmdStr = ''7FF0F0040'', priority = p, maxRetries = m\<rparr> = ''7FF0F''"
  "getId \<lparr>cmdStr = ''84E030001FB'', priority = p, maxRetries = m\<rparr> = ''84E03''"
  "getId \<lparr>cmdStr = ''7B6EE00AA'', priority = p, maxRetries = m\<rparr> = ''7B6EE''"
  by (simp_all add: getId_def parseIdentifier_def parseCommand_def substring_def
      getCommand_def setCommand_def)

lemmas queue_eval =
  example_commands example_ids run_ops_def new_CommandMessageQ_def default_config_def
  Q_push_back_def indexForPriority_def indexLoop.simps insertPriority_def Let_def getMessage_def

theorem queue_order_witness:
  "tail_descending (run_ops default_config [Push get_V, Push get_SOC_urgent, Push set_relay])
   \<and> cmdMessageQ (run_ops default_config [Push get_V, Push get_SOC_urgent, Push set_relay]) \<noteq> []
   \<and> hd (cmdMessageQ (Q_push_back get_EEB6_urgent
          (run_ops default_config [Push get_V, Push get_SOC_urgent, Push set_relay]))) = get_V
   \<and> indexForPriority (run_ops default_config [Push get_V, Push get_SOC_urgent, Push set_relay])
        (priority get_EEB6_urgent) = 2
   \<and> cmdMessageQ (Q_push_back get_EEB6_urgent
          (run_ops default_config [Push get_V, Push get_SOC_urgent, Push set_relay]))
       = [get_V, get_SOC_urgent, get_EEB6_urgent, set_relay]
   \<and> tail_descending (Q_push_back get_EEB6_urgent
          (run_ops default_config [Push get_V, Push get_SOC_urgent, Push set_relay]))"
proof -
  let ?q = "run_ops default_config [Push get_V, Push get_SOC_urgent, Push set_relay]"
  note t = queue_order [of default_config "[Push get_V, Push get_SOC_urgent, Push set_relay]"
      ?q get_EEB6_urgent 0, unfolded Let_def]
  have q: "cmdMessageQ ?q = [get_V, get_SOC_urgent, set_relay]"
    by (simp add: queue_eval)
  have l: "indexForPriority ?q (priority get_EEB6_urgent) = 2"
    by (simp add: queue_eval)
  have i: "getId (cmdMessageQ ?q ! (2 - 1)) \<noteq> getId get_EEB6_urgent"
    unfolding q by (simp add: example_commands example_ids)
  have m: "getMessage (cmdMessageQ ?q ! (2 - 1)) \<noteq> getMessage get_EEB6_urgent"
    unfolding q by (simp add: example_commands getMessage_def)
  from t have td: "tail_descending ?q" by blast
  from t td have td': "tail_descending (Q_push_back get_EEB6_urgent ?q)" by blast
  from t q have h: "hd (cmdMessageQ (Q_push_back get_EEB6_urgent ?q)) = get_V" by simp
  from t l i m have "cmdMessageQ (Q_push_back get_EEB6_urgent ?q)
      = take 2 (cmdMessageQ ?q) @ [get_EEB6_urgent] @ drop 2 (cmdMessageQ ?q)"
    by simp
  with q have r: "cmdMessageQ (Q_push_back get_EEB6_urgent ?q)
      = [get_V, get_SOC_urgent, get_EEB6_urgent, set_relay]" by simp
  from td q h l r td' show ?thesis by simp
qed

text \<open>
  Claim C5. A command of priority 1 pushed behind a head of priority 0 stands at
  index 1, so the priorities are 0, 1 from head to tail; and pushed into the empty
  queue it stands at index 0.
\<close>

theorem queue_head_below_successor:
  "map priority (cmdMessageQ (run_ops default_config [Push get_V, Push get_SOC_urgent])) = [0, 1]
   \<and> \<not> descending (run_ops default_config [Push get_V, Push get_SOC_urgent])
   \<and> cmdMessageQ (run_ops default_config [Push get_SOC_urgent]) = [get_SOC_urgent]"
  by (simp add: queue_eval descending_def)

section \<open>Properties of the telemetry parser\<close>


lemma hex_digit_dec: "d < 10 \<Longrightarrow> is_dec (hex_digit d)"
  by (simp add: is_dec_def hex_digit_def)

lemma toString10_dec: "list_all is_dec (toString10 n) \<and> toString10 n \<noteq> []"
proof (induction n rule: toString10.induct)
  case (1 n)
  show ?case
  proof (cases "n < 10")
    case True
    then show ?thesis by (simp add: toString10.simps[of n] hex_digit_dec)
  next
    case False
    with 1 show ?thesis by (simp add: toString10.simps[of n] hex_digit_dec)
  qed
qed

lemma parseInt16_dec: "is_dec c \<Longrightarrow> \<exists>d. parseInt16 c = Some d \<and> d < 10"
  by (auto simp: is_dec_def parseInt16_def Let_def)

lemma digits_value_snoc:
  "digits_value R (Z @ [c]) = digits_value R Z * R + the (parseInt16 c)"
  by (simp add: digits_value_def)

lemma parseInt16_hex_digit_plain: "d < 16 \<Longrightarrow> parseInt16 (hex_digit d) = Some d"
  by (simp add: parseInt16_def of_char_hex_digit Let_def)

lemma digits_value_toString10: "digits_value 10 (toString10 n) = n"
proof (induction n rule: toString10.induct)
  case (1 n)
  show ?case
  proof (cases "n < 10")
    case True
    then show ?thesis
      by (simp add: toString10.simps[of n] digits_value_def parseInt16_hex_digit_plain)
  next
    case False
    with 1 show ?thesis
      by (simp add: toString10.simps[of n] digits_value_snoc parseInt16_hex_digit_plain)
  qed
qed

lemma digits_value_toString16: "digits_value 16 (toUpperCase (toString16 n)) = n"
proof (induction n rule: toString16.induct)
  case (1 n)
  show ?case
  proof (cases "n < 16")
    case True
    then have "toUpperCase (toString16 n) = [toUpperCase_char (hex_digit n)]"
      by (simp add: toString16.simps[of n] toUpperCase_def)
    then show ?thesis using True
      by (simp add: digits_value_def parseInt16_hex_digit)
  next
    case False
    then have "toUpperCase (toString16 n) =
        toUpperCase (toString16 (n div 16)) @ [toUpperCase_char (hex_digit (n mod 16))]"
      by (simp add: toString16.simps[of n] toUpperCase_def)
    then have "digits_value 16 (toUpperCase (toString16 n)) =
        digits_value 16 (toUpperCase (toString16 (n div 16))) * 16
        + the (parseInt16 (toUpperCase_char (hex_digit (n mod 16))))"
      by (simp only: digits_value_snoc)
    also have "\<dots> = (n div 16) * 16 + n mod 16"
      using 1 False by (simp add: parseInt16_hex_digit)
    finally show ?thesis by simp
  qed
qed

lemma toString16_hex: "list_all is_hex (toString16 n) \<and> toString16 n \<noteq> []"
proof (induction n rule: toString16.induct)
  case (1 n)
  show ?case
  proof (cases "n < 16")
    case True
    then show ?thesis by (simp add: toString16.simps[of n] is_hex_def parseInt16_hex_digit_plain)
  next
    case False
    with 1 show ?thesis by (simp add: toString16.simps[of n] is_hex_def parseInt16_hex_digit_plain)
  qed
qed

lemma takeWhile_all: "list_all P xs \<Longrightarrow> takeWhile P xs = xs"
  by (induction xs) simp_all

lemma digit_in_radix_10: "is_dec c \<Longrightarrow> digit_in_radix 10 c"
  using parseInt16_dec[of c] by (auto simp: digit_in_radix_def)

lemma digit_in_radix_16: "is_hex c \<Longrightarrow> digit_in_radix 16 c"
  by (auto simp: digit_in_radix_def is_hex_def parseInt16_def Let_def split: option.splits if_splits)

lemma parseInt_digits:
  assumes "list_all is_dec ds" "ds \<noteq> []"
  shows "parseInt ds = Some (int (digits_value 10 ds))"
    and "parseInt (CHR ''-'' # ds) = Some (- int (digits_value 10 ds))"
proof -
  from assms obtain d ds' where ds: "ds = d # ds'" and d: "is_dec d"
    by (cases ds) auto
  have nw: "dropWhile is_white_space ds = ds" "take 1 ds \<noteq> ''-''" "take 1 ds \<noteq> ''+''"
    using d by (auto simp: ds is_dec_def is_white_space_def)
  have nx: "take 2 ds \<noteq> ''0x''" "take 2 ds \<noteq> ''0X''"
    using assms(1) ds by (cases ds'; auto simp: is_dec_def)+
  have tw: "takeWhile (digit_in_radix 10) ds = ds"
    using assms(1) by (intro takeWhile_all) (auto simp: list_all_iff digit_in_radix_10)
  show "parseInt ds = Some (int (digits_value 10 ds))"
    unfolding parseInt_def Let_def nw(1) using nw(2,3) nx assms(2) by (simp add: tw)
  have m: "dropWhile is_white_space (CHR ''-'' # ds) = CHR ''-'' # ds"
    by (simp add: is_white_space_def)
  have m1: "take 1 (CHR ''-'' # ds) = ''-''" "drop 1 (CHR ''-'' # ds) = ds" by simp_all
  show "parseInt (CHR ''-'' # ds) = Some (- int (digits_value 10 ds))"
    unfolding parseInt_def Let_def m m1 using nx assms(2) by (simp add: tw)
qed

lemma parseInt_ascii_integer: "parseInt (ascii_integer n) = Some n"
  using parseInt_digits[OF conjunct1[OF toString10_dec] conjunct2[OF toString10_dec]]
  by (simp add: ascii_integer_def digits_value_toString10)

lemma parseInt_hex_token: "parseInt (hex_token n) = Some (int n)"
proof -
  let ?hs = "toUpperCase (toString16 n)"
  have h: "list_all is_hex ?hs" "?hs \<noteq> []"
    using toString16_hex[of n] by (simp_all add: list_all_is_hex_toUpperCase) (simp add: toUpperCase_def)
  have tw: "takeWhile (digit_in_radix 16) ?hs = ?hs"
    using h(1) by (intro takeWhile_all) (auto simp: list_all_iff digit_in_radix_16)
  have m: "dropWhile is_white_space (''0x'' @ ?hs) = ''0x'' @ ?hs"
    "take 1 (''0x'' @ ?hs) = ''0''" "take 2 (''0x'' @ ?hs) = ''0x''" "drop 2 (''0x'' @ ?hs) = ?hs"
    by (simp_all add: is_white_space_def)
  show ?thesis
    unfolding parseInt_def hex_token_def Let_def m using h(2)
    by (simp add: tw digits_value_toString16)
qed

lemma parseInt_ON_OFF: "parseInt ''ON'' = None" "parseInt ''OFF'' = None"
  by (simp_all add: parseInt_def Let_def is_white_space_def digit_in_radix_def parseInt16_def)

lemma split_at_no_sep: "sep \<notin> set s \<Longrightarrow> split_at sep s = [s]"
  by (induction s) auto

lemma split_at_key: "sep \<notin> set k \<Longrightarrow> split_at sep (k @ sep # v) = k # split_at sep v"
  by (induction k) auto

lemma split_at_line:
  "sep \<notin> set k \<Longrightarrow> sep \<notin> set v \<Longrightarrow> split_at sep (k @ sep # v) = [k, v]"
  by (simp add: split_at_key split_at_no_sep)

lemma staged_after_value:
  assumes op: "isOperational st" and k: "key \<noteq> []" "key \<noteq> ''Checksum''" "CHR 0x09 \<notin> set key"
    and reg: "map_of (victronMap (cache st)) key = Some r"
    and v: "CHR 0x09 \<notin> set v"
  shows "staged_after str2num registerComponent now (key @ CHR 0x09 # v) r st =
     Some (if parseInt v = None \<or> parseInt v = Some 0 then JStr v
           else JNum (of_int (the (parseInt v))))"
  using op k reg
  by (simp add: staged_after_def parseSerialInput_def split_at_line[OF k(3) v] Let_def)

lemma runMessageQ_keeps:
  "cache (runMessageQ now st) = cache st" "calls (runMessageQ now st) = calls st"
  "checksum (runMessageQ now st) = checksum st" "isOperational (runMessageQ now st) = isOperational st"
  "packageArrivalTime (runMessageQ now st) = packageArrivalTime st"
  "rxtx_on (runMessageQ now st) = rxtx_on st"
  by (simp_all add: runMessageQ_def getExpectedResponseTo_def setTimeout_def clearTimeout_def
      port_write_def Let_def split: option.splits)

lemma evaluate_keeps:
  "cache (evaluate now r st) = cache st" "calls (evaluate now r st) = calls st"
  "checksum (evaluate now r st) = checksum st" "isOperational (evaluate now r st) = isOperational st"
  "packageArrivalTime (evaluate now r st) = packageArrivalTime st"
  "rxtx_on (evaluate now r st) = rxtx_on st"
  by (simp_all add: evaluate_def runMessageQ_keeps clearTimeout_def restart_def port_write_def
      Let_def split: option.splits)

lemma evaluate_all_keeps:
  "cache (evaluate_all now rs st) = cache st" "calls (evaluate_all now rs st) = calls st"
  "checksum (evaluate_all now rs st) = checksum st"
  "isOperational (evaluate_all now rs st) = isOperational st"
  "packageArrivalTime (evaluate_all now rs st) = packageArrivalTime st"
  "rxtx_on (evaluate_all now rs st) = rxtx_on st"
  by (induction rs arbitrary: st; simp add: evaluate_keeps)+

lemma discard_loop_value: "value (discard_loop rs s r) = value (s r)"
  by (induction rs arbitrary: s) simp_all

lemma discard_loop_other: "r \<notin> set rs \<Longrightarrow> discard_loop rs s r = s r"
  by (induction rs arbitrary: s) simp_all

lemma discard_loop_newValue: "r \<in> set rs \<Longrightarrow> newValue (discard_loop rs s r) = JNull"
proof (induction rs arbitrary: s)
  case Nil
  then show ?case by simp
next
  case (Cons a rs)
  show ?case
  proof (cases "r \<in> set rs")
    case True
    then show ?thesis using Cons.IH by simp
  next
    case False
    with Cons.prems have "a = r" by simp
    with False show ?thesis by (simp add: discard_loop_other)
  qed
qed

lemma split_at_checksum:
  assumes "take 9 line = ''Checksum'' @ [CHR 0x09]"
  shows "\<exists>rest. split_at (CHR 0x09) line = ''Checksum'' # split_at (CHR 0x09) rest"
proof -
  from assms have "line = (''Checksum'' @ [CHR 0x09]) @ drop 9 line"
    by (metis append_take_drop_id)
  then have "line = ''Checksum'' @ CHR 0x09 # drop 9 line" by simp
  then have "split_at (CHR 0x09) line = ''Checksum'' # split_at (CHR 0x09) (drop 9 line)"
    using split_at_key[of "CHR 0x09" "''Checksum''" "drop 9 line"] by simp
  then show ?thesis by blast
qed

lemma split_at_nonempty: "split_at sep s \<noteq> []"
  by (induction s) (auto split: list.splits)

lemma checksum_line_res:
  assumes "take 9 line = ''Checksum'' @ [CHR 0x09]"
  shows "hd (split_at (CHR 0x09) line) = ''Checksum''" "\<not> length (split_at (CHR 0x09) line) < 2"
proof -
  from split_at_checksum[OF assms] obtain rest where
    r: "split_at (CHR 0x09) line = ''Checksum'' # split_at (CHR 0x09) rest" by blast
  show "hd (split_at (CHR 0x09) line) = ''Checksum''" by (simp add: r)
  from split_at_nonempty[of "CHR 0x09" rest] show "\<not> length (split_at (CHR 0x09) line) < 2"
    by (cases "split_at (CHR 0x09) rest") (simp_all add: r)
qed

lemma ten: "length ''Checksum'' + 2 = (10::nat)"
  by simp

lemma parseSerialInput_Checksum:
  assumes op: "isOperational st"
    and line: "take 9 line = ''Checksum'' @ [CHR 0x09]"
  shows "\<exists>rs cs. parseSerialInput str2num registerComponent now line st =
     (case (if frame_valid line st
            then updateValuesAndValueListeners str2num (st\<lparr>checksum := cs\<rparr>)
            else Some (Inr (st\<lparr>checksum := cs, cache := discardValues (cache st)\<rparr>))) of
        None \<Rightarrow> None
      | Some (Inl e) \<Rightarrow> Some (Inl e)
      | Some (Inr st1) \<Rightarrow>
          Some (Inr (evaluate_all now rs (st1\<lparr>packageArrivalTime := 0, checksum := Some 0\<rparr>))))"
proof -
  note res = checksum_line_res[OF line]
  let ?res = "split_at (CHR 0x09) line"
  let ?cs = "RegularUpdateChecksum_update (substring line 0 10) (checksum st)"
  let ?rs = "if length (?res ! 1) \<le> 3 then []
             else drop 1 (split_at (CHR '':'') (drop 1 (?res ! 1)))"
  have "parseSerialInput str2num registerComponent now line st =
     (case (if frame_valid line st
            then updateValuesAndValueListeners str2num (st\<lparr>checksum := ?cs\<rparr>)
            else Some (Inr (st\<lparr>checksum := ?cs, cache := discardValues (cache st)\<rparr>))) of
        None \<Rightarrow> None
      | Some (Inl e) \<Rightarrow> Some (Inl e)
      | Some (Inr st1) \<Rightarrow>
          Some (Inr (evaluate_all now ?rs (st1\<lparr>packageArrivalTime := 0, checksum := Some 0\<rparr>))))"
    unfolding parseSerialInput_def frame_valid_def ten
    using op res
    by (auto simp: Let_def split: option.splits sum.splits)
  then show ?thesis by blast
qed

lemma parse_invalid_frame:
  assumes op: "isOperational st"
    and line: "take 9 line = ''Checksum'' @ [CHR 0x09]"
    and invalid: "\<not> frame_valid line st"
  shows "\<exists>st'. parseSerialInput str2num registerComponent now line st = Some (Inr st')
      \<and> cache st' = discardValues (cache st) \<and> calls st' = calls st
      \<and> checksum st' = Some 0 \<and> isOperational st'"
proof -
  from parseSerialInput_Checksum[OF op line, of str2num registerComponent now] invalid
  obtain rs cs where "parseSerialInput str2num registerComponent now line st =
      Some (Inr (evaluate_all now rs
        (st\<lparr>checksum := cs, cache := discardValues (cache st), packageArrivalTime := 0,
            checksum := Some 0\<rparr>)))"
    by auto
  then show ?thesis using op by (simp add: evaluate_all_keeps)
qed

lemma no_tab_ascii_integer: "CHR 0x09 \<notin> set (ascii_integer n)"
  using toString10_dec[of "nat n"] toString10_dec[of "nat (- n)"]
  by (auto simp: ascii_integer_def list_all_iff is_dec_def)

lemma no_tab_hex_token: "CHR 0x09 \<notin> set (hex_token n)"
proof
  assume "CHR 0x09 \<in> set (hex_token n)"
  then have "CHR 0x09 \<in> set (toUpperCase (toString16 n))"
    by (simp add: hex_token_def)
  moreover have "list_all is_hex (toUpperCase (toString16 n))"
    using toString16_hex[of n] by (simp add: list_all_is_hex_toUpperCase)
  ultimately have "is_hex (CHR 0x09)" by (simp add: list_all_iff)
  then show False by (simp add: is_hex_def parseInt16_def)
qed

lemmas engine_eval =
  example_engine_def registerListener_def new_ReceiverTransmitter_def example_cache_def
  default_config_def new_CommandMessageQ_def no_number_def no_registration_def

lemmas parse_eval =
  parseSerialInput_def staged_after_def Let_def parseInt_def is_white_space_def
  digit_in_radix_def parseInt16_def digits_value_def RegularUpdateChecksum_update_def
  substring_def sum_codes_def frame_valid_def

lemma staged_engine_eq:
  "staged_engine = example_engine
     \<lparr>checksum := Some 217, packageArrivalTime := 100,
      cache := example_cache\<lparr>store := (store example_cache)
        (0 := \<lparr>value = JNum 10, newValue = JNum 12, nativeToUnitFactor = 1, delta = 5, on = [1]\<rparr>)\<rparr>\<rparr>"
  by (simp add: staged_engine_def engine_eval parse_eval)

text \<open>
  Claim C7, amended. For a line that consists of a registered key, a tab and a value:
  if the value is \<^verbatim>\<open>ON\<close> or \<^verbatim>\<open>OFF\<close>, the staged \<^verbatim>\<open>newValue\<close> is that string; if it is
  an ASCII integer other than zero (negative ones included), it is that number; and if
  it is a token with the prefix \<^verbatim>\<open>0x\<close> that denotes a number other than zero, it is the
  number the token denotes.
\<close>

theorem telemetry_value_staged:
  assumes "isOperational st" and "key \<noteq> []" and "key \<noteq> ''Checksum''"
    and "CHR 0x09 \<notin> set key" and "map_of (victronMap (cache st)) key = Some r"
  shows "staged_after str2num registerComponent now (key @ CHR 0x09 # ''ON'') r st
           = Some (JStr ''ON'')
     \<and> staged_after str2num registerComponent now (key @ CHR 0x09 # ''OFF'') r st
           = Some (JStr ''OFF'')
     \<and> (n \<noteq> 0 \<longrightarrow>
          staged_after str2num registerComponent now (key @ CHR 0x09 # ascii_integer n) r st
           = Some (JNum (of_int n)))
     \<and> (m \<noteq> 0 \<longrightarrow>
          staged_after str2num registerComponent now (key @ CHR 0x09 # hex_token m) r st
           = Some (JNum (of_nat m)))"
proof -
  note sv = staged_after_value[OF assms, of _ str2num registerComponent now]
  have a: "staged_after str2num registerComponent now (key @ CHR 0x09 # ''ON'') r st
           = Some (JStr ''ON'')"
    by (subst sv) (simp_all add: parseInt_ON_OFF)
  have b: "staged_after str2num registerComponent now (key @ CHR 0x09 # ''OFF'') r st
           = Some (JStr ''OFF'')"
    by (subst sv) (simp_all add: parseInt_ON_OFF)
  have c: "n \<noteq> 0 \<longrightarrow>
          staged_after str2num registerComponent now (key @ CHR 0x09 # ascii_integer n) r st
           = Some (JNum (of_int n))"
    by (subst sv) (simp_all add: parseInt_ascii_integer no_tab_ascii_integer)
  have d: "m \<noteq> 0 \<longrightarrow>
          staged_after str2num registerComponent now (key @ CHR 0x09 # hex_token m) r st
           = Some (JNum (of_nat m))"
    by (subst sv) (simp_all add: parseInt_hex_token no_tab_hex_token)
  from a b c d show ?thesis by blast
qed

theorem telemetry_value_staged_witness:
  "isOperational example_engine \<and> map_of (victronMap (cache example_engine)) ''Relay'' = Some 1
   \<and> ascii_integer (- 500) = ''-500'' \<and> hex_token 516 = ''0x204''
   \<and> staged_after no_number no_registration 100 (''Relay'' @ CHR 0x09 # ''OFF'') 1 example_engine
       = Some (JStr ''OFF'')
   \<and> staged_after no_number no_registration 100 (''Relay'' @ CHR 0x09 # ''-500'') 1 example_engine
       = Some (JNum (- 500))
   \<and> staged_after no_number no_registration 100 (''Relay'' @ CHR 0x09 # ''0x204'') 1 example_engine
       = Some (JNum 516)"
proof -
  have op: "isOperational example_engine" by (simp add: engine_eval)
  have reg: "map_of (victronMap (cache example_engine)) ''Relay'' = Some 1"
    by (simp add: engine_eval)
  have ai: "ascii_integer (- 500) = ''-500''" by code_simp
  have ht: "hex_token 516 = ''0x204''" by code_simp
  have k: "''Relay'' \<noteq> []" "''Relay'' \<noteq> ''Checksum''" "CHR 0x09 \<notin> set ''Relay''" by simp_all
  from telemetry_value_staged [OF op k reg, of no_number no_registration 100 "- 500" 516]
  show ?thesis using op reg ai ht by simp
qed

text \<open>
  Claim C7. The token \<^verbatim>\<open>0x204\<close> is staged as the number 516, not as the string, and the
  integer \<^verbatim>\<open>0\<close> is staged as the string \<^verbatim>\<open>0\<close>, not as the number.
\<close>

theorem hex_token_staged_as_number:
  "staged_after no_number no_registration 100 (''PID'' @ CHR 0x09 # ''0x204'') 2 example_engine
     = Some (JNum 516)
   \<and> staged_after no_number no_registration 100 (''V'' @ CHR 0x09 # ''0'') 0 example_engine
     = Some (JStr ''0'')"
  by (simp add: engine_eval parse_eval)

text \<open>
  Claim C3. A \<^verbatim>\<open>Checksum\<close> line that closes a frame whose sum is not zero modulo 256
  changes no descriptor's \<^verbatim>\<open>value\<close>; it sets \<^verbatim>\<open>newValue\<close> to \<^verbatim>\<open>null\<close> on every descriptor
  of \<^verbatim>\<open>victronMap\<close> and leaves every other descriptor as it is; no listener is called;
  and the function returns with the accumulator reset and the engine operational, so
  that the next line is parsed.
\<close>

theorem invalid_frame_discards:
  assumes "isOperational st" and "take 9 line = ''Checksum'' @ [CHR 0x09]"
    and "\<not> frame_valid line st"
  shows "\<exists>st'. parseSerialInput str2num registerComponent now line st = Some (Inr st')
     \<and> (\<forall>r. value (store (cache st') r) = value (store (cache st) r))
     \<and> (\<forall>r. r \<in> set (map snd (victronMap (cache st))) \<longrightarrow>
            newValue (store (cache st') r) = JNull)
     \<and> (\<forall>r. r \<notin> set (map snd (victronMap (cache st))) \<longrightarrow>
            store (cache st') r = store (cache st) r)
     \<and> calls st' = calls st \<and> isOperational st' \<and> checksum st' = Some 0"
proof -
  from parse_invalid_frame[OF assms, of str2num registerComponent now] obtain st' where
    p: "parseSerialInput str2num registerComponent now line st = Some (Inr st')"
    and c: "cache st' = discardValues (cache st)" and l: "calls st' = calls st"
    and k: "checksum st' = Some 0" and o: "isOperational st'"
    by blast
  have "\<forall>r. value (store (cache st') r) = value (store (cache st) r)"
    by (simp add: c discardValues_def discard_loop_value)
  moreover have "\<forall>r. r \<in> set (map snd (victronMap (cache st))) \<longrightarrow>
            newValue (store (cache st') r) = JNull"
    by (simp add: c discardValues_def discard_loop_newValue)
  moreover have "\<forall>r. r \<notin> set (map snd (victronMap (cache st))) \<longrightarrow>
            store (cache st') r = store (cache st) r"
    by (simp add: c discardValues_def discard_loop_other)
  ultimately show ?thesis using p l k o by blast
qed

theorem invalid_frame_discards_witness:
  "isOperational staged_engine
   \<and> \<not> frame_valid (''Checksum'' @ [CHR 0x09, CHR 0xD5]) staged_engine
   \<and> newValue (store (cache staged_engine) 0) = JNum 12
   \<and> value (store (cache staged_engine) 0) = JNum 10
   \<and> (\<exists>st'. parseSerialInput no_number no_registration 101
                (''Checksum'' @ [CHR 0x09, CHR 0xD5]) staged_engine = Some (Inr st')
         \<and> value (store (cache st') 0) = JNum 10
         \<and> newValue (store (cache st') 0) = JNull
         \<and> store (cache st') 3 = store (cache staged_engine) 3
         \<and> calls st' = [] \<and> checksum st' = Some 0)"
proof -
  have op: "isOperational staged_engine" by (simp add: staged_engine_eq engine_eval)
  have line: "take 9 (''Checksum'' @ [CHR 0x09, CHR 0xD5]) = ''Checksum'' @ [CHR 0x09]" by simp
  have inv: "\<not> frame_valid (''Checksum'' @ [CHR 0x09, CHR 0xD5]) staged_engine"
    by (simp add: staged_engine_eq engine_eval parse_eval)
  have n: "newValue (store (cache staged_engine) 0) = JNum 12" by (simp add: staged_engine_eq)
  have v: "value (store (cache staged_engine) 0) = JNum 10" by (simp add: staged_engine_eq)
  have vm: "set (map snd (victronMap (cache staged_engine))) = {0, 1, 2}"
    by (auto simp: staged_engine_eq engine_eval)
  have cl: "calls staged_engine = []" by (simp add: staged_engine_eq engine_eval)
  from invalid_frame_discards [OF op line inv, of no_number no_registration 101]
  obtain st' where
    p: "parseSerialInput no_number no_registration 101
          (''Checksum'' @ [CHR 0x09, CHR 0xD5]) staged_engine = Some (Inr st')"
    and a: "\<forall>r. value (store (cache st') r) = value (store (cache staged_engine) r)"
    and b: "\<forall>r. r \<in> set (map snd (victronMap (cache staged_engine))) \<longrightarrow>
            newValue (store (cache st') r) = JNull"
    and c: "\<forall>r. r \<notin> set (map snd (victronMap (cache staged_engine))) \<longrightarrow>
            store (cache st') r = store (cache staged_engine) r"
    and d: "calls st' = calls staged_engine" "checksum st' = Some 0"
    by blast
  from a v have "value (store (cache st') 0) = JNum 10" by simp
  moreover from b vm have "newValue (store (cache st') 0) = JNull" by simp
  moreover from c vm have "store (cache st') 3 = store (cache staged_engine) 3" by simp
  ultimately show ?thesis using op inv n v p d cl by simp
qed
section \<open>Properties of the arithmetic of doubles\<close>

text \<open>
  \<open>pow2\<close> is the power of two, \<open>bitlen\<close> and \<open>ilog2\<close> bracket their argument between two
  powers of two, and \<open>round_even\<close> is within one half of its argument.
\<close>

lemma pow2_powi: "pow2 e = 2 powi e"
  by (simp add: pow2_def power_int_def field_simps)

lemma pow2_pos: "0 < pow2 e"
  by (simp add: pow2_powi zero_less_power_int)

lemma pow2_add: "pow2 (a + b) = pow2 a * pow2 b"
  by (simp add: pow2_powi power_int_add)

lemma pow2_diff: "pow2 (a - b) = pow2 a / pow2 b"
  using pow2_add[of "a - b" b] pow2_pos[of b] by (simp add: field_simps)

lemma pow2_mono: "a \<le> b \<Longrightarrow> pow2 a \<le> pow2 b"
  by (simp add: pow2_powi power_int_increasing)

lemma pow2_strict_mono: "a < b \<Longrightarrow> pow2 a < pow2 b"
  by (simp add: pow2_powi power_int_strict_increasing)

lemma pow2_nat: "pow2 (int n) = 2 ^ n"
  by (simp add: pow2_def)

lemma pow2_of_int: "0 \<le> e \<Longrightarrow> pow2 e = of_int (2 ^ nat e)"
  by (simp add: pow2_def)

lemma bitlen_pos: "0 < n \<Longrightarrow> 1 \<le> bitlen n"
proof -
  assume "0 < n"
  then have "bitlen n = 1 + bitlen (n div 2)" by (subst bitlen.simps) simp
  moreover have "0 \<le> bitlen m" for m
    by (induction m rule: bitlen.induct) (subst bitlen.simps, simp)
  ultimately show ?thesis by (simp add: \<open>\<And>m. 0 \<le> bitlen m\<close>)
qed

lemma bitlen_bounds:
  "0 < n \<Longrightarrow> 2 ^ nat (bitlen n - 1) \<le> n \<and> n < 2 ^ nat (bitlen n)"
proof (induction n rule: bitlen.induct)
  case (1 n)
  from 1(2) have b: "bitlen n = 1 + bitlen (n div 2)" by (subst bitlen.simps) simp
  show ?case
  proof (cases "n div 2 = 0")
    case True
    with 1(2) have "n = 1" by presburger
    moreover have "bitlen 0 = 0" by (subst bitlen.simps) simp
    ultimately show ?thesis using b by simp
  next
    case False
    with 1(2) have p: "0 < n div 2" by presburger
    from 1(1) 1(2) p have ih: "2 ^ nat (bitlen (n div 2) - 1) \<le> n div 2"
      "n div 2 < 2 ^ nat (bitlen (n div 2))" by simp_all
    from bitlen_pos[OF p] have e: "nat (bitlen n - 1) = Suc (nat (bitlen (n div 2) - 1))"
      "nat (bitlen n) = Suc (nat (bitlen (n div 2)))" using b by simp_all
    have "2 * 2 ^ nat (bitlen (n div 2) - 1) \<le> 2 * (n div 2)" using ih(1) by simp
    also have "\<dots> \<le> n" by presburger
    finally have l: "2 ^ nat (bitlen n - 1) \<le> n" by (simp add: e)
    from ih(2) have "n div 2 + 1 \<le> 2 ^ nat (bitlen (n div 2))" by simp
    then have "2 * (n div 2 + 1) \<le> 2 * 2 ^ nat (bitlen (n div 2))" by simp
    moreover have "n < 2 * (n div 2 + 1)" by presburger
    ultimately have "n < 2 ^ nat (bitlen n)" by (simp add: e)
    with l show ?thesis by simp
  qed
qed

lemma bitlen_pow2:
  assumes "0 < n"
  shows "pow2 (bitlen n - 1) \<le> of_int n" and "of_int n < pow2 (bitlen n)"
proof -
  from bitlen_pos[OF assms] have b: "0 \<le> bitlen n - 1" "0 \<le> bitlen n" by simp_all
  from bitlen_bounds[OF assms] have l: "2 ^ nat (bitlen n - 1) \<le> n" and u: "n < 2 ^ nat (bitlen n)"
    by simp_all
  from l have "(of_int (2 ^ nat (bitlen n - 1)) :: rat) \<le> of_int n" by (simp only: of_int_le_iff)
  then show "pow2 (bitlen n - 1) \<le> of_int n" using pow2_of_int[OF b(1)] by simp
  from u have "(of_int n :: rat) < of_int (2 ^ nat (bitlen n))" by (simp only: of_int_less_iff)
  then show "of_int n < pow2 (bitlen n)" using pow2_of_int[OF b(2)] by simp
qed

lemma ilog2_bounds:
  assumes "0 < x"
  shows "pow2 (ilog2 x) \<le> x" and "x < pow2 (ilog2 x + 1)"
proof -
  obtain p q where pq: "quotient_of x = (p, q)" by (cases "quotient_of x")
  then have q: "0 < q" by (rule quotient_of_denom_pos)
  from pq have x: "x = of_int p / of_int q" by (rule quotient_of_div)
  from assms x q have p: "0 < p" by (simp add: zero_less_divide_iff)
  let ?d = "bitlen p - bitlen q"
  have qr: "(0 :: rat) < of_int q" using q by simp
  have "x < pow2 (bitlen p) / of_int q"
    using bitlen_pow2(2)[OF p] qr by (simp add: x divide_strict_right_mono)
  also have "\<dots> \<le> pow2 (bitlen p) / pow2 (bitlen q - 1)"
    using bitlen_pow2(1)[OF q] pow2_pos[of "bitlen p"] pow2_pos[of "bitlen q - 1"]
    by (simp add: frac_le)
  also have "\<dots> = pow2 (?d + 1)" by (simp add: pow2_diff[symmetric] algebra_simps)
  finally have up: "x < pow2 (?d + 1)" .
  have "pow2 (?d - 1) = pow2 (bitlen p - 1) / pow2 (bitlen q)"
    by (simp add: pow2_diff[symmetric] algebra_simps)
  also have "\<dots> \<le> of_int p / pow2 (bitlen q)"
    using bitlen_pow2(1)[OF p] pow2_pos[of "bitlen q"] by (simp add: divide_right_mono)
  also have "\<dots> \<le> of_int p / of_int q"
    using bitlen_pow2(2)[OF q] p qr by (simp add: frac_le)
  finally have lo: "pow2 (?d - 1) \<le> x" by (simp add: x)
  have i: "ilog2 x = (if pow2 ?d \<le> x then ?d else ?d - 1)"
    by (simp add: ilog2_def pq Let_def)
  show "pow2 (ilog2 x) \<le> x" using lo by (simp add: i)
  show "x < pow2 (ilog2 x + 1)" using up by (auto simp: i)
qed

lemma ilog2_unique:
  assumes "pow2 e \<le> x" and "x < pow2 (e + 1)"
  shows "ilog2 x = e"
proof -
  have "0 < x" using assms(1) pow2_pos[of e] by simp
  note b = ilog2_bounds[OF this]
  have "pow2 (ilog2 x) < pow2 (e + 1)" using b(1) assms(2) by simp
  then have "ilog2 x < e + 1" using pow2_mono[of "e + 1" "ilog2 x"] by linarith
  moreover have "pow2 e < pow2 (ilog2 x + 1)" using b(2) assms(1) by simp
  then have "e < ilog2 x + 1" using pow2_mono[of "ilog2 x + 1" e] by linarith
  ultimately show ?thesis by simp
qed

lemma round_even_near: "\<bar>of_int (round_even m) - m\<bar> \<le> 1 / 2"
proof -
  have "of_int \<lfloor>m\<rfloor> \<le> m" "m < of_int \<lfloor>m\<rfloor> + 1" by linarith+
  then show ?thesis by (auto simp: round_even_def Let_def)
qed

lemma round_even_of_int: "round_even (of_int n) = n"
  by (simp add: round_even_def)

text \<open>
  A number \<open>m * 2\<^sup>k\<close> with \<open>|m| < 2\<^sup>5\<^sup>3\<close> and \<open>k \<ge> -1074\<close> below \<open>2\<^sup>1\<^sup>0\<^sup>2\<^sup>4\<close> is a double, and the
  rounding leaves it as it is; so it does the integers up to \<open>2\<^sup>5\<^sup>3\<close>.
\<close>

lemma fl_unfold:
  assumes "x \<noteq> 0"
  shows "fl x =
     (if max (ilog2 \<bar>x\<bar>) (- 1022) > 1023
         \<or> (max (ilog2 \<bar>x\<bar>) (- 1022) = 1023
             \<and> \<bar>round_even (x / pow2 (max (ilog2 \<bar>x\<bar>) (- 1022) - 52))\<bar> \<ge> 2 ^ 53)
      then JInf (x > 0)
      else JNum (of_int (round_even (x / pow2 (max (ilog2 \<bar>x\<bar>) (- 1022) - 52)))
                 * pow2 (max (ilog2 \<bar>x\<bar>) (- 1022) - 52)))"
  using assms by (simp add: fl_def Let_def)

lemma pow2_numeral: "pow2 53 = 2 ^ 53" "pow2 0 = 1"
  by (simp_all add: pow2_def)

lemma fl_exact:
  assumes m: "\<bar>m\<bar> < 2 ^ 53" and k: "- 1074 \<le> k"
    and r: "\<bar>of_int m * pow2 k\<bar> < pow2 1024"
  shows "fl (of_int m * pow2 k) = JNum (of_int m * pow2 k)"
proof (cases "m = 0")
  case True
  then show ?thesis by (simp add: fl_def)
next
  case False
  define x where "x = of_int m * pow2 k"
  have x0: "x \<noteq> 0" using False pow2_pos[of k] by (simp add: x_def)
  then have ax: "0 < \<bar>x\<bar>" by simp
  define e where "e = max (ilog2 \<bar>x\<bar>) (- 1022)"
  note b = ilog2_bounds[OF ax]
  have "\<bar>of_int m :: rat\<bar> < 2 ^ 53" using m by (metis of_int_abs of_int_less_numeral_power_cancel_iff)
  then have "\<bar>x\<bar> < pow2 53 * pow2 k"
    using pow2_pos[of k] by (simp add: x_def abs_mult pow2_numeral mult_strict_right_mono)
  then have "pow2 (ilog2 \<bar>x\<bar>) < pow2 (53 + k)" using b(1) by (simp add: pow2_add)
  then have "ilog2 \<bar>x\<bar> < 53 + k" using pow2_mono[of "53 + k" "ilog2 \<bar>x\<bar>"] by linarith
  with k have ek: "e - 52 \<le> k" by (simp add: e_def)
  define j where "j = nat (k - (e - 52))"
  have kj: "k = (e - 52) + int j" using ek by (simp add: j_def)
  have q: "x / pow2 (e - 52) = of_int (m * 2 ^ j)"
    using pow2_pos[of "e - 52"] by (simp add: x_def kj pow2_add pow2_nat)
  have n: "round_even (x / pow2 (e - 52)) = m * 2 ^ j"
    unfolding q by (rule round_even_of_int)
  have v: "of_int (m * 2 ^ j) * pow2 (e - 52) = x"
    by (simp add: x_def kj pow2_add pow2_nat)
  have "pow2 (ilog2 \<bar>x\<bar>) < pow2 1024" using b(1) r by (simp add: x_def)
  then have "ilog2 \<bar>x\<bar> < 1024" using pow2_mono[of 1024 "ilog2 \<bar>x\<bar>"] by linarith
  then have e1: "\<not> e > 1023" by (simp add: e_def)
  have e2: "\<not> (e = 1023 \<and> \<bar>m * 2 ^ j\<bar> \<ge> 2 ^ 53)"
  proof
    assume a: "e = 1023 \<and> \<bar>m * 2 ^ j\<bar> \<ge> 2 ^ 53"
    then have "(2 ^ 53 :: rat) \<le> of_int \<bar>m * 2 ^ j\<bar>"
      by (metis of_int_numeral_le_iff of_int_power numeral_power_le_of_int_cancel_iff)
    then have "pow2 53 * pow2 (e - 52) \<le> \<bar>of_int (m * 2 ^ j)\<bar> * pow2 (e - 52)"
      using pow2_pos[of "e - 52"] by (simp add: pow2_numeral mult_right_mono)
    also have "\<dots> = \<bar>x\<bar>"
    proof -
      have "\<bar>of_int (m * 2 ^ j) * pow2 (e - 52)\<bar> = \<bar>of_int (m * 2 ^ j)\<bar> * pow2 (e - 52)"
        using pow2_pos[of "e - 52"] by (simp only: abs_mult abs_of_pos)
      then show ?thesis by (simp only: v)
    qed
    finally have "pow2 (53 + (e - 52)) \<le> \<bar>x\<bar>" by (simp only: pow2_add)
    with a r show False by (simp add: x_def)
  qed
  show ?thesis
    using fl_unfold[OF x0] e1 e2 n v unfolding e_def[symmetric] x_def[symmetric] by simp
qed

lemma fl_integer:
  assumes "\<bar>i\<bar> \<le> 2 ^ 53"
  shows "fl (of_int i) = JNum (of_int i)"
proof (cases "\<bar>i\<bar> < 2 ^ 53")
  case True
  have "\<bar>of_int i :: rat\<bar> < 2 ^ 53"
    using True by (metis of_int_abs of_int_less_numeral_power_cancel_iff)
  also have "(2 ^ 53 :: rat) = pow2 53" by (simp add: pow2_def)
  also have "\<dots> < pow2 1024" by (rule pow2_strict_mono) simp
  finally have "\<bar>of_int i * pow2 0\<bar> < pow2 1024" by (simp add: pow2_def)
  from fl_exact[OF True _ this] show ?thesis by (simp add: pow2_def)
next
  case False
  with assms have "\<bar>i\<bar> = 2 ^ 53" by simp
  then have "i = 2 ^ 53 \<or> i = - (2 ^ 53)" by linarith
  then have i: "of_int i = of_int (sgn i) * pow2 53" by (auto simp: pow2_def)
  have s: "\<bar>sgn i\<bar> < 2 ^ 53" by (simp add: sgn_if)
  have "\<bar>of_int (sgn i) * pow2 53\<bar> \<le> pow2 53"
    using pow2_pos[of 53] by (simp add: abs_mult sgn_if)
  also have "\<dots> < pow2 1024" by (rule pow2_strict_mono) simp
  finally have "\<bar>of_int (sgn i) * pow2 53\<bar> < pow2 1024" .
  from fl_exact[OF s _ this] show ?thesis by (simp add: i)
qed

text \<open>
  The result of the rounding is a double, it is within half a unit in the last place
  of the exact value, and it is an infinity only from \<open>2\<^sup>1\<^sup>0\<^sup>2\<^sup>4 - 2\<^sup>9\<^sup>7\<^sup>0\<close> on, and always
  from \<open>2\<^sup>1\<^sup>0\<^sup>2\<^sup>4\<close> on.
\<close>

lemma fl_nearest:
  assumes "fl x = JNum y"
  shows "\<bar>y - x\<bar> \<le> pow2 (max (ilog2 \<bar>x\<bar>) (- 1022) - 53)"
proof (cases "x = 0")
  case True
  with assms have "y = 0" by (simp add: fl_def)
  with True show ?thesis using pow2_pos[of "max (ilog2 \<bar>x\<bar>) (- 1022) - 53"] by simp
next
  case False
  define u where "u = pow2 (max (ilog2 \<bar>x\<bar>) (- 1022) - 52)"
  have u: "0 < u" by (simp add: u_def pow2_pos)
  from assms fl_unfold[OF False] have y: "y = of_int (round_even (x / u)) * u"
    by (auto simp: u_def split: if_splits)
  have "\<bar>y - x\<bar> = \<bar>of_int (round_even (x / u)) - x / u\<bar> * u"
  proof -
    have "y - x = (of_int (round_even (x / u)) - x / u) * u" using u by (simp add: y field_simps)
    then show ?thesis using u by (simp only: abs_mult abs_of_pos)
  qed
  also have "\<dots> \<le> 1 / 2 * u" using round_even_near[of "x / u"] u by (simp add: mult_right_mono)
  also have "\<dots> = pow2 (max (ilog2 \<bar>x\<bar>) (- 1022) - 53)"
  proof -
    have "pow2 (max (ilog2 \<bar>x\<bar>) (- 1022) - 52) = pow2 (max (ilog2 \<bar>x\<bar>) (- 1022) - 53) * pow2 1"
      by (simp only: pow2_add[symmetric]) simp
    then show ?thesis by (simp add: u_def pow2_def)
  qed
  finally show ?thesis .
qed

lemma fl_double:
  assumes "fl x = JNum y"
  shows "\<exists>n k. y = of_int n * pow2 k \<and> \<bar>n\<bar> \<le> 2 ^ 53 \<and> - 1074 \<le> k \<and> k \<le> 971
            \<and> \<bar>y\<bar> < pow2 1024"
proof (cases "x = 0")
  case True
  with assms have "y = 0" by (simp add: fl_def)
  then have "y = of_int 0 * pow2 0 \<and> \<bar>0 :: int\<bar> \<le> 2 ^ 53 \<and> - 1074 \<le> (0 :: int) \<and> (0 :: int) \<le> 971
      \<and> \<bar>y\<bar> < pow2 1024" using pow2_pos[of 1024] by simp
  then show ?thesis by blast
next
  case False
  then have ax: "0 < \<bar>x\<bar>" by simp
  define e where "e = max (ilog2 \<bar>x\<bar>) (- 1022)"
  define u where "u = pow2 (e - 52)"
  define n where "n = round_even (x / u)"
  have u: "0 < u" by (simp add: u_def pow2_pos)
  from assms fl_unfold[OF False] have y: "y = of_int n * u"
    and e1: "\<not> e > 1023" and e2: "\<not> (e = 1023 \<and> \<bar>n\<bar> \<ge> 2 ^ 53)"
    by (auto simp: u_def e_def n_def split: if_splits)
  have "\<bar>x\<bar> < pow2 (ilog2 \<bar>x\<bar> + 1)" by (rule ilog2_bounds(2)[OF ax])
  also have "\<dots> \<le> pow2 (e + 1)" by (rule pow2_mono) (simp add: e_def)
  also have "\<dots> = pow2 53 * u"
  proof -
    have "53 + (e - 52) = e + 1" by simp
    then show ?thesis by (simp only: u_def pow2_add[symmetric])
  qed
  finally have "\<bar>x\<bar> / u < pow2 53" using u by (simp add: field_simps)
  then have xu: "\<bar>x / u\<bar> < 2 ^ 53" using u by (simp add: pow2_numeral)
  have "\<bar>of_int n :: rat\<bar> \<le> \<bar>of_int n - x / u\<bar> + \<bar>x / u\<bar>" by linarith
  also have "\<dots> < 1 / 2 + 2 ^ 53" using round_even_near[of "x / u"] xu by (simp add: n_def)
  finally have "(of_int \<bar>n\<bar> :: rat) < of_int (2 ^ 53) + 1 / 2" by simp
  then have "(of_int \<bar>n\<bar> :: rat) < of_int (2 ^ 53 + 1)" by simp
  then have "\<bar>n\<bar> < 2 ^ 53 + 1" by (simp only: of_int_less_iff)
  then have nb: "\<bar>n\<bar> \<le> 2 ^ 53" by simp
  have k1: "- 1074 \<le> e - 52" by (simp add: e_def)
  have k2: "e - 52 \<le> 971" using e1 by simp
  have "\<bar>y\<bar> < pow2 1024"
  proof (cases "e = 1023")
    case True
    with e2 have "\<bar>n\<bar> < 2 ^ 53" by simp
    then have "\<bar>of_int n :: rat\<bar> < 2 ^ 53"
      by (metis of_int_abs of_int_less_numeral_power_cancel_iff)
    then have "\<bar>of_int n :: rat\<bar> * u < pow2 53 * u" using u by (simp add: pow2_numeral)
    also have "pow2 53 * u = pow2 1024" by (simp only: u_def True pow2_add[symmetric]) simp
    finally show ?thesis using u by (simp add: y abs_mult)
  next
    case False
    with e1 have "e + 1 \<le> 1023" by simp
    have "\<bar>of_int n :: rat\<bar> \<le> 2 ^ 53"
      using nb by (metis of_int_abs of_int_le_numeral_power_cancel_iff)
    then have "\<bar>of_int n :: rat\<bar> * u \<le> pow2 53 * u" using u by (simp add: pow2_numeral)
    also have "pow2 53 * u = pow2 (e + 1)"
    proof -
      have "53 + (e - 52) = e + 1" by simp
      then show ?thesis by (simp only: u_def pow2_add[symmetric])
    qed
    also have "\<dots> < pow2 1024" by (rule pow2_strict_mono) (use \<open>e + 1 \<le> 1023\<close> in simp)
    finally show ?thesis using u by (simp add: y abs_mult)
  qed
  with y nb k1 k2 show ?thesis unfolding u_def by blast
qed

lemma fl_overflow:
  assumes "fl x = JInf s"
  shows "pow2 1024 - pow2 970 \<le> \<bar>x\<bar> \<and> s = (0 < x)"
proof -
  have x0: "x \<noteq> 0" using assms by (auto simp: fl_def)
  then have ax: "0 < \<bar>x\<bar>" by simp
  define e where "e = max (ilog2 \<bar>x\<bar>) (- 1022)"
  define u where "u = pow2 (e - 52)"
  define n where "n = round_even (x / u)"
  from assms fl_unfold[OF x0] have s: "s = (0 < x)"
    and c: "e > 1023 \<or> (e = 1023 \<and> \<bar>n\<bar> \<ge> 2 ^ 53)"
    by (auto simp: u_def e_def n_def split: if_splits)
  have p: "0 < pow2 970" by (rule pow2_pos)
  from c have "pow2 1024 - pow2 970 \<le> \<bar>x\<bar>"
  proof
    assume "e > 1023"
    then have "1024 \<le> ilog2 \<bar>x\<bar>" by (simp add: e_def)
    then have "pow2 1024 \<le> pow2 (ilog2 \<bar>x\<bar>)" by (rule pow2_mono)
    also have "\<dots> \<le> \<bar>x\<bar>" by (rule ilog2_bounds(1)[OF ax])
    finally show ?thesis using p by simp
  next
    assume a: "e = 1023 \<and> \<bar>n\<bar> \<ge> 2 ^ 53"
    then have u: "u = pow2 971" by (simp add: u_def)
    have up: "0 < u" by (simp add: u_def pow2_pos)
    from a have "(2 ^ 53 :: rat) \<le> \<bar>of_int n\<bar>"
      by (metis of_int_abs numeral_power_le_of_int_cancel_iff)
    also have "\<dots> \<le> \<bar>of_int n - x / u\<bar> + \<bar>x / u\<bar>" by linarith
    also have "\<dots> \<le> 1 / 2 + \<bar>x / u\<bar>" using round_even_near[of "x / u"] by (simp add: n_def)
    finally have "(2 ^ 53 :: rat) \<le> 1 / 2 + \<bar>x / u\<bar>" .
    then have "(2 ^ 53 :: rat) - 1 / 2 \<le> \<bar>x / u\<bar>" by linarith
    then have "pow2 53 - 1 / 2 \<le> \<bar>x / u\<bar>" by (simp only: pow2_numeral)
    then have "(pow2 53 - 1 / 2) * u \<le> \<bar>x / u\<bar> * u"
      using up by (intro mult_right_mono) simp_all
    also have "\<bar>x / u\<bar> * u = \<bar>x\<bar>" using up by simp
    also have "(pow2 53 - 1 / 2) * u = pow2 53 * pow2 971 - pow2 971 / pow2 1"
      by (simp add: u algebra_simps pow2_def)
    also have "\<dots> = pow2 1024 - pow2 970"
      by (simp only: pow2_add[symmetric] pow2_diff[symmetric]) simp
    finally show ?thesis .
  qed
  with s show ?thesis by simp
qed

lemma fl_overflows:
  assumes "pow2 1024 \<le> \<bar>x\<bar>"
  shows "fl x = JInf (0 < x)"
proof -
  have ax: "0 < \<bar>x\<bar>" using assms pow2_pos[of 1024] by linarith
  then have x0: "x \<noteq> 0" by simp
  have "pow2 1024 < pow2 (ilog2 \<bar>x\<bar> + 1)" using assms ilog2_bounds(2)[OF ax] by simp
  then have "1024 < ilog2 \<bar>x\<bar> + 1" using pow2_mono[of "ilog2 \<bar>x\<bar> + 1" 1024] by linarith
  then show ?thesis using fl_unfold[OF x0] by simp
qed

text \<open>
  Doubles that are well known: \<^verbatim>\<open>0.1\<close>, the sum \<^verbatim>\<open>0.1 + 0.2\<close>, which is
  \<^verbatim>\<open>0.30000000000000004\<close>, and the integers next to \<open>2\<^sup>5\<^sup>3\<close>, of which the odd ones are
  rounded to the even neighbour.
\<close>

lemma fl_known_values:
  "fl (1 / 10) = JNum (3602879701896397 / 36028797018963968)"
  "fl (3602879701896397 / 36028797018963968 + 3602879701896397 / 18014398509481984)
     = JNum (1351079888211149 / 4503599627370496)"
  "fl (2 ^ 53 + 1) = JNum (2 ^ 53)"
  "fl (2 ^ 53 + 3) = JNum (2 ^ 53 + 4)"
  by code_simp+

section \<open>Properties of the commit of a frame\<close>

lemma to_number_fl: "to_number s (fl x) = fl x"
  by (simp add: fl_def Let_def)

lemma to_number_times: "to_number s (number_times a b) = number_times a b"
  by (cases a; cases b) (simp_all add: to_number_fl)

lemma runOnFunction_fst:
  "fst (runOnFunction s a k obj) = (if reportable s obj then Some (change_entry s obj) else None)"
  by (auto simp: runOnFunction_def reportable_def change_entry_def SIValues_def Let_def
      js_times_def js_minus_def si_units_def distance_def to_number_times)

lemma runOnFunction_calls: "\<forall>c\<in>set (snd (runOnFunction s a k obj)). \<not> is_ChangeListCall c"
  by (auto simp: runOnFunction_def Let_def)

lemma loose_eq_refl: "v \<noteq> JNaN \<Longrightarrow> loose_eq s v v"
  by (cases v) simp_all

lemma reportable_differs:
  assumes "reportable s obj"
  shows "newValue obj \<noteq> value obj" and "newValue obj \<noteq> JNull"
proof -
  show "newValue obj \<noteq> JNull" using assms by (simp add: reportable_def)
  show "newValue obj \<noteq> value obj"
  proof
    assume eq: "newValue obj = value obj"
    show False
    proof (cases "value obj = JNaN")
      case True
      with eq assms show False
        by (simp add: reportable_def si_units_def distance_def)
    next
      case False
      with eq assms loose_eq_refl[of "value obj" s] show False by (simp add: reportable_def)
    qed
  qed
qed

lemma objects_of_mem: "(k, r) \<in> set (objects_of es) \<longleftrightarrow> (k, Obj r) \<in> set es"
  by (induction es rule: objects_of.induct) auto

lemma assoc_set_fresh: "k \<notin> set (map fst es) \<Longrightarrow> assoc_set k v es = es @ [(k, v)]"
  by (induction es) auto

lemma map_fst_assoc_set:
  "map fst (assoc_set k v es) = (if k \<in> set (map fst es) then map fst es else map fst es @ [k])"
proof (induction es)
  case Nil
  then show ?case by simp
next
  case (Cons e es)
  obtain k' v' where e: "e = (k', v')" by (cases e)
  show ?case
  proof (cases "k' = k")
    case True
    then show ?thesis by (simp add: e)
  next
    case False
    then show ?thesis using Cons.IH by (simp add: e)
  qed
qed

lemma distinct_assoc_set: "distinct (map fst es) \<Longrightarrow> distinct (map fst (assoc_set k v es))"
  by (simp add: map_fst_assoc_set)

lemma objects_of_append: "objects_of (xs @ ys) = objects_of xs @ objects_of ys"
  by (induction xs rule: objects_of.induct) simp_all

lemma objects_of_assoc_set_Flag:
  "k \<notin> set (map fst (objects_of es)) \<Longrightarrow> objects_of (assoc_set k (Flag b) es) = objects_of es"
  by (induction es rule: objects_of.induct) auto

lemma map_of_assoc_set: "map_of (assoc_set k v es) k = Some v"
  by (induction es) auto

lemma updateCache_object:
  assumes "distinct (map fst (bmvdata c))" "(key, Obj r) \<in> set (bmvdata c)"
  shows "updateCache key c = Inr (c\<lparr>store := (store c)(r := committed (store c r))\<rparr>)"
proof -
  from assms have "map_of (bmvdata c) key = Some (Obj r)" by simp
  then show ?thesis
    by (simp add: updateCache_def bmvdata_get_def committed_def Let_def)
qed

lemma reported_Cons:
  "reported s S ((k, r) # objs) =
     (if reportable s (S r) then [(k, change_entry s (S r))] else []) @ reported s S objs"
  by (simp add: reported_def)

lemma reported_cong:
  "\<forall>kr\<in>set objs. S (snd kr) = S' (snd kr) \<Longrightarrow> reported s S objs = reported s S' objs"
  by (induction objs) (auto simp: reported_def)

lemma commit_pass_result:
  assumes "distinct (map fst (bmvdata (cache st)))"
    and "set es \<subseteq> set (bmvdata (cache st))"
    and "distinct (map snd (objects_of es))"
    and "distinct (map fst (objects_of es))"
    and "set (map fst (objects_of es)) \<inter> set (map fst ch) = {}"
  shows "\<exists>S cs. commit_pass s es (st, ch) =
            Inr (st\<lparr>calls := calls st @ cs, cache := (cache st)\<lparr>store := S\<rparr>\<rparr>,
                 ch @ reported s (store (cache st)) (objects_of es))
          \<and> (\<forall>c\<in>set cs. \<not> is_ChangeListCall c)
          \<and> (\<forall>r. r \<in> set (map snd (objects_of es)) \<longrightarrow> S r = committed (store (cache st) r))
          \<and> (\<forall>r. r \<notin> set (map snd (objects_of es)) \<longrightarrow> S r = store (cache st) r)"
  using assms
proof (induction es arbitrary: st ch)
  case Nil
  have "st = st\<lparr>calls := calls st @ [], cache := (cache st)\<lparr>store := store (cache st)\<rparr>\<rparr>"
    by simp
  then have "commit_pass s [] (st, ch) =
       Inr (st\<lparr>calls := calls st @ [], cache := (cache st)\<lparr>store := store (cache st)\<rparr>\<rparr>,
            ch @ reported s (store (cache st)) (objects_of []))"
    by (simp add: reported_def)
  then show ?case by (intro exI[of _ "store (cache st)"] exI[of _ "[]"]) simp
next
  case (Cons e es)
  obtain key ent where e: "e = (key, ent)" by (cases e)
  show ?case
  proof (cases ent)
    case (Flag b)
    from Cons.prems have "\<exists>S cs. commit_pass s es (st, ch) =
            Inr (st\<lparr>calls := calls st @ cs, cache := (cache st)\<lparr>store := S\<rparr>\<rparr>,
                 ch @ reported s (store (cache st)) (objects_of es))
          \<and> (\<forall>c\<in>set cs. \<not> is_ChangeListCall c)
          \<and> (\<forall>r. r \<in> set (map snd (objects_of es)) \<longrightarrow> S r = committed (store (cache st) r))
          \<and> (\<forall>r. r \<notin> set (map snd (objects_of es)) \<longrightarrow> S r = store (cache st) r)"
      by (intro Cons.IH) (simp_all add: e Flag)
    then show ?thesis by (simp add: e Flag)
  next
    case (Obj r)
    let ?obj = "store (cache st) r"
    let ?run = "runOnFunction s (packageArrivalTime st) key ?obj"
    let ?st1 = "st\<lparr>calls := calls st @ snd ?run\<rparr>"
    let ?ch1 = "ch @ (if reportable s ?obj then [(key, change_entry s ?obj)] else [])"
    let ?st2 = "?st1\<lparr>cache := (cache st)\<lparr>store := (store (cache st))(r := committed ?obj)\<rparr>\<rparr>"
    from Cons.prems(5) have fresh: "key \<notin> set (map fst ch)" by (auto simp: e Obj)
    have ch1: "(case fst ?run of None \<Rightarrow> ch | Some c \<Rightarrow> assoc_set key c ch) = ?ch1"
      using fresh by (simp add: runOnFunction_fst assoc_set_fresh)
    have mem: "(key, Obj r) \<in> set (bmvdata (cache st))" using Cons.prems(2) by (simp add: e Obj)
    have upd: "updateCache key (cache st) =
        Inr ((cache st)\<lparr>store := (store (cache st))(r := committed ?obj)\<rparr>)"
      using updateCache_object[OF Cons.prems(1) mem] by simp
    have step: "commit_pass s (e # es) (st, ch) = commit_pass s es (?st2, ?ch1)"
      unfolding e Obj commit_pass.simps
      by (simp add: case_prod_unfold Let_def ch1 upd del: fun_upd_apply)
    have rn: "r \<notin> set (map snd (objects_of es))" and kn: "key \<notin> set (map fst (objects_of es))"
      using Cons.prems(3,4) by (simp_all add: e Obj)
    have p5: "set (map fst (objects_of es)) \<inter> set (map fst ?ch1) = {}"
      using Cons.prems(5) kn by (auto simp: e Obj)
    have "\<exists>S cs. commit_pass s es (?st2, ?ch1) =
            Inr (?st2\<lparr>calls := calls ?st2 @ cs, cache := (cache ?st2)\<lparr>store := S\<rparr>\<rparr>,
                 ?ch1 @ reported s (store (cache ?st2)) (objects_of es))
          \<and> (\<forall>c\<in>set cs. \<not> is_ChangeListCall c)
          \<and> (\<forall>r. r \<in> set (map snd (objects_of es)) \<longrightarrow> S r = committed (store (cache ?st2) r))
          \<and> (\<forall>r. r \<notin> set (map snd (objects_of es)) \<longrightarrow> S r = store (cache ?st2) r)"
    proof (rule Cons.IH)
      show "distinct (map fst (bmvdata (cache ?st2)))" using Cons.prems(1) by simp
      show "set es \<subseteq> set (bmvdata (cache ?st2))" using Cons.prems(2) by simp
      show "distinct (map snd (objects_of es))" using Cons.prems(3) by (simp add: e Obj)
      show "distinct (map fst (objects_of es))" using Cons.prems(4) by (simp add: e Obj)
      show "set (map fst (objects_of es)) \<inter> set (map fst ?ch1) = {}" by (rule p5)
    qed
    then obtain S cs where
      r: "commit_pass s es (?st2, ?ch1) =
            Inr (?st2\<lparr>calls := calls ?st2 @ cs, cache := (cache ?st2)\<lparr>store := S\<rparr>\<rparr>,
                 ?ch1 @ reported s (store (cache ?st2)) (objects_of es))"
      and c: "\<forall>c\<in>set cs. \<not> is_ChangeListCall c"
      and a: "\<forall>r'. r' \<in> set (map snd (objects_of es)) \<longrightarrow> S r' = committed (store (cache ?st2) r')"
      and b: "\<forall>r'. r' \<notin> set (map snd (objects_of es)) \<longrightarrow> S r' = store (cache ?st2) r'"
      by blast
    have same: "reported s ((store (cache st))(r := committed ?obj)) (objects_of es)
        = reported s (store (cache st)) (objects_of es)"
      using rn by (intro reported_cong) (auto simp: rev_image_eqI)
    have res: "commit_pass s (e # es) (st, ch) =
        Inr (st\<lparr>calls := calls st @ (snd ?run @ cs), cache := (cache st)\<lparr>store := S\<rparr>\<rparr>,
             ch @ reported s (store (cache st)) (objects_of (e # es)))"
      unfolding step r by (simp add: same e Obj reported_Cons)
    have c': "\<forall>c\<in>set (snd ?run @ cs). \<not> is_ChangeListCall c"
      using c runOnFunction_calls[of s "packageArrivalTime st" key ?obj] by auto
    have a': "\<forall>r'. r' \<in> set (map snd (objects_of (e # es))) \<longrightarrow> S r' = committed (store (cache st) r')"
      using a b rn by (auto simp: e Obj)
    have b': "\<forall>r'. r' \<notin> set (map snd (objects_of (e # es))) \<longrightarrow> S r' = store (cache st) r'"
      using b by (auto simp: e Obj)
    from res c' a' b' show ?thesis by blast
  qed
qed

lemma distinct_objects_of: "distinct (map fst es) \<Longrightarrow> distinct (map fst (objects_of es))"
proof (induction es rule: objects_of.induct)
  case 1
  then show ?case by simp
next
  case (2 key r entries)
  have "key \<notin> fst ` set (objects_of entries)"
  proof
    assume "key \<in> fst ` set (objects_of entries)"
    then obtain r' where "(key, r') \<in> set (objects_of entries)" by auto
    then have "(key, Obj r') \<in> set entries" by (simp add: objects_of_mem)
    then have "key \<in> fst ` set entries" by (rule rev_image_eqI) simp
    with 2 show False by simp
  qed
  with 2 show ?case by simp
next
  case (3 key b entries)
  then show ?case by simp
qed

lemma map_of_assoc_set_other: "k' \<noteq> k \<Longrightarrow> map_of (assoc_set k v es) k' = map_of es k'"
  by (induction es) auto

lemma updateValues_result:
  assumes wf: "wf_cache (cache st)"
  shows "\<exists>S cs B'. updateValuesAndValueListeners s st =
       Some (Inr (st\<lparr>calls := calls st @ cs
                     @ (if reported s (store (cache st)) (objects_of (bmvdata (cache st))) = [] then []
                        else map (\<lambda>f. ChangeListCall f
                                    (reported s (store (cache st)) (objects_of (bmvdata (cache st))))
                                    (packageArrivalTime st)) (rxtx_on st)),
                   cache := (cache st)\<lparr>store := S, bmvdata := B'\<rparr>\<rparr>))
     \<and> (\<forall>c\<in>set cs. \<not> is_ChangeListCall c)
     \<and> (\<forall>r. r \<in> set (map snd (objects_of (bmvdata (cache st)))) \<longrightarrow>
            S r = committed (store (cache st) r))
     \<and> (\<forall>r. r \<notin> set (map snd (objects_of (bmvdata (cache st)))) \<longrightarrow> S r = store (cache st) r)
     \<and> objects_of B' = objects_of (bmvdata (cache st))"
proof -
  let ?B = "bmvdata (cache st)"
  let ?BT = "assoc_set ''isDirty'' (Flag True) ?B"
  let ?B1 = "assoc_set ''isDirty'' (Flag False) ?BT"
  let ?stT = "set_isDirty True st"
  let ?st1 = "set_isDirty False ?stT"
  let ?m = "reported s (store (cache st)) (objects_of ?B)"
  from wf have dk: "distinct (map fst ?B)" and dr: "distinct (map snd (objects_of ?B))"
    and nd: "''isDirty'' \<notin> set (map fst (objects_of ?B))"
    by (simp_all add: wf_cache_def)
  have oT: "objects_of ?BT = objects_of ?B" using nd by (rule objects_of_assoc_set_Flag)
  have o1: "objects_of ?B1 = objects_of ?B"
    using nd objects_of_assoc_set_Flag[of "''isDirty''" ?BT False] by (simp add: oT)
  have d1: "distinct (map fst ?B1)" using dk by (intro distinct_assoc_set)
  have b1: "bmvdata (cache ?st1) = ?B1" by (simp add: set_isDirty_def)
  have s1: "store (cache ?st1) = store (cache st)" by (simp add: set_isDirty_def)
  have dirtyT: "isDirty ?stT"
    by (simp add: isDirty_def set_isDirty_def bmvdata_get_def map_of_assoc_set)
  have "\<exists>S cs. commit_pass s ?B1 (?st1, []) =
            Inr (?st1\<lparr>calls := calls ?st1 @ cs, cache := (cache ?st1)\<lparr>store := S\<rparr>\<rparr>,
                 [] @ reported s (store (cache ?st1)) (objects_of ?B1))
          \<and> (\<forall>c\<in>set cs. \<not> is_ChangeListCall c)
          \<and> (\<forall>r. r \<in> set (map snd (objects_of ?B1)) \<longrightarrow> S r = committed (store (cache ?st1) r))
          \<and> (\<forall>r. r \<notin> set (map snd (objects_of ?B1)) \<longrightarrow> S r = store (cache ?st1) r)"
  proof (rule commit_pass_result)
    show "distinct (map fst (bmvdata (cache ?st1)))" using d1 by (simp add: b1)
    show "set ?B1 \<subseteq> set (bmvdata (cache ?st1))" by (simp add: b1)
    show "distinct (map snd (objects_of ?B1))" using dr by (simp add: o1)
    show "distinct (map fst (objects_of ?B1))" using d1 by (rule distinct_objects_of)
    show "set (map fst (objects_of ?B1)) \<inter> set (map fst []) = {}" by simp
  qed
  then obtain S cs where
    pass: "commit_pass s ?B1 (?st1, []) =
            Inr (?st1\<lparr>calls := calls ?st1 @ cs, cache := (cache ?st1)\<lparr>store := S\<rparr>\<rparr>, ?m)"
    and c: "\<forall>c\<in>set cs. \<not> is_ChangeListCall c"
    and a: "\<forall>r. r \<in> set (map snd (objects_of ?B)) \<longrightarrow> S r = committed (store (cache st) r)"
    and b: "\<forall>r. r \<notin> set (map snd (objects_of ?B)) \<longrightarrow> S r = store (cache st) r"
    unfolding o1 s1 by auto
  let ?st2 = "?st1\<lparr>calls := calls ?st1 @ cs, cache := (cache ?st1)\<lparr>store := S\<rparr>\<rparr>"
  have clean: "\<not> isDirty ?st2"
    by (simp add: isDirty_def set_isDirty_def bmvdata_get_def map_of_assoc_set)
  have loop2: "dirty_loop s (?st2, ?m) = Some (Inr (?st2, ?m))"
    using clean by (subst dirty_loop.simps) simp
  have loop: "dirty_loop s (?stT, []) = Some (Inr (?st2, ?m))"
    using dirtyT pass loop2 by (subst dirty_loop.simps) (simp add: b1 Let_def)
  have st2: "?st2 = st\<lparr>calls := calls st @ cs, cache := (cache st)\<lparr>store := S, bmvdata := ?B1\<rparr>\<rparr>"
    by (simp add: set_isDirty_def)
  have "updateValuesAndValueListeners s st =
       Some (Inr (st\<lparr>calls := calls st @ cs
                     @ (if ?m = [] then []
                        else map (\<lambda>f. ChangeListCall f ?m (packageArrivalTime st)) (rxtx_on st)),
                   cache := (cache st)\<lparr>store := S, bmvdata := ?B1\<rparr>\<rparr>))"
    unfolding updateValuesAndValueListeners_def loop st2 by simp
  with c a b o1 show ?thesis by blast
qed

lemma filter_calls:
  assumes "\<forall>c\<in>set cs. \<not> is_ChangeListCall c"
  shows "filter is_ChangeListCall (cs @ map (\<lambda>f. ChangeListCall f m t) fs)
     = map (\<lambda>f. ChangeListCall f m t) fs"
proof -
  have "filter is_ChangeListCall cs = []" using assms by (simp add: filter_empty_conv)
  moreover have "filter is_ChangeListCall (map (\<lambda>f. ChangeListCall f m t) fs)
      = map (\<lambda>f. ChangeListCall f m t) fs"
    by (induction fs) simp_all
  ultimately show ?thesis by simp
qed

lemma committed_value:
  "value (committed obj) = (if newValue obj \<noteq> JNull then newValue obj else value obj)"
  "newValue (committed obj) = JNull"
  by (simp_all add: committed_def)

lemma parse_valid_frame:
  assumes op: "isOperational st"
    and line: "take 9 line = ''Checksum'' @ [CHR 0x09]"
    and valid: "frame_valid line st"
    and wf: "wf_cache (cache st)"
  shows "\<exists>st'. parseSerialInput s registerComponent now line st = Some (Inr st')
     \<and> filter is_ChangeListCall (calls_since st st')
         = (if reported s (store (cache st)) (objects_of (bmvdata (cache st))) = [] then []
            else map (\<lambda>f. ChangeListCall f
                        (reported s (store (cache st)) (objects_of (bmvdata (cache st))))
                        (packageArrivalTime st)) (rxtx_on st))
     \<and> filter is_ChangeListCall (calls st')
         = filter is_ChangeListCall (calls st) @ filter is_ChangeListCall (calls_since st st')
     \<and> (\<forall>r. r \<in> set (map snd (objects_of (bmvdata (cache st)))) \<longrightarrow>
            store (cache st') r = committed (store (cache st) r))
     \<and> (\<forall>r. r \<notin> set (map snd (objects_of (bmvdata (cache st)))) \<longrightarrow>
            store (cache st') r = store (cache st) r)
     \<and> objects_of (bmvdata (cache st')) = objects_of (bmvdata (cache st))"
proof -
  let ?m = "reported s (store (cache st)) (objects_of (bmvdata (cache st)))"
  let ?cl = "if ?m = [] then []
             else map (\<lambda>f. ChangeListCall f ?m (packageArrivalTime st)) (rxtx_on st)"
  from parseSerialInput_Checksum[OF op line, of s registerComponent now] valid
  obtain rs cs0 where
    p: "parseSerialInput s registerComponent now line st =
     (case updateValuesAndValueListeners s (st\<lparr>checksum := cs0\<rparr>) of
        None \<Rightarrow> None
      | Some (Inl e) \<Rightarrow> Some (Inl e)
      | Some (Inr st1) \<Rightarrow>
          Some (Inr (evaluate_all now rs (st1\<lparr>packageArrivalTime := 0, checksum := Some 0\<rparr>))))"
    by auto
  define st0 where "st0 = st\<lparr>checksum := cs0\<rparr>"
  have e: "cache st0 = cache st" "calls st0 = calls st"
    "packageArrivalTime st0 = packageArrivalTime st" "rxtx_on st0 = rxtx_on st"
    by (simp_all add: st0_def)
  have wf': "wf_cache (cache st0)" using wf by (simp add: e)
  from updateValues_result[OF wf', of s] obtain S cs B' where
    u0: "updateValuesAndValueListeners s st0 =
       Some (Inr (st0\<lparr>calls := calls st0 @ cs
                     @ (if reported s (store (cache st0)) (objects_of (bmvdata (cache st0))) = [] then []
                        else map (\<lambda>f. ChangeListCall f
                                    (reported s (store (cache st0)) (objects_of (bmvdata (cache st0))))
                                    (packageArrivalTime st0)) (rxtx_on st0)),
                   cache := (cache st0)\<lparr>store := S, bmvdata := B'\<rparr>\<rparr>))"
    and c: "\<forall>c\<in>set cs. \<not> is_ChangeListCall c"
    and a0: "\<forall>r. r \<in> set (map snd (objects_of (bmvdata (cache st0)))) \<longrightarrow>
            S r = committed (store (cache st0) r)"
    and b0: "\<forall>r. r \<notin> set (map snd (objects_of (bmvdata (cache st0)))) \<longrightarrow>
            S r = store (cache st0) r"
    and o0: "objects_of B' = objects_of (bmvdata (cache st0))"
    by blast
  note u = u0[unfolded e] and a = a0[unfolded e] and b = b0[unfolded e] and o = o0[unfolded e]
  let ?st' = "evaluate_all now rs
      (st0\<lparr>calls := calls st @ cs @ ?cl,
           cache := (cache st)\<lparr>store := S, bmvdata := B'\<rparr>,
           packageArrivalTime := 0, checksum := Some 0\<rparr>)"
  have r: "parseSerialInput s registerComponent now line st = Some (Inr ?st')"
    unfolding p st0_def[symmetric] u by simp
  have cl: "calls ?st' = calls st @ cs @ ?cl" and ca: "cache ?st' = (cache st)\<lparr>store := S, bmvdata := B'\<rparr>"
    by (simp_all add: evaluate_all_keeps)
  have f: "filter is_ChangeListCall (cs @ ?cl) = ?cl"
    using filter_calls[OF c] c by (simp add: filter_empty_conv)
  have "filter is_ChangeListCall (calls_since st ?st') = ?cl"
    using f by (simp add: calls_since_def cl)
  moreover have "filter is_ChangeListCall (calls ?st')
         = filter is_ChangeListCall (calls st) @ filter is_ChangeListCall (calls_since st ?st')"
    by (simp add: calls_since_def cl)
  moreover have "\<forall>r. r \<in> set (map snd (objects_of (bmvdata (cache st)))) \<longrightarrow>
            store (cache ?st') r = committed (store (cache st) r)"
    using a by (simp add: ca)
  moreover have "\<forall>r. r \<notin> set (map snd (objects_of (bmvdata (cache st)))) \<longrightarrow>
            store (cache ?st') r = store (cache st) r"
    using b by (simp add: ca)
  moreover have "objects_of (bmvdata (cache ?st')) = objects_of (bmvdata (cache st))"
    using o by (simp add: ca)
  ultimately show ?thesis using r by blast
qed

lemma staged_engine2_eq:
  "staged_engine2 = example_engine
     \<lparr>checksum := Some 977, packageArrivalTime := 100,
      cache := example_cache\<lparr>store := (store example_cache)
        (0 := \<lparr>value = JNum 10, newValue = JNum 12, nativeToUnitFactor = 1, delta = 5, on = [1]\<rparr>,
         1 := \<lparr>value = JStr ''ON'', newValue = JStr ''OFF'', nativeToUnitFactor = 1, delta = 0,
               on = [2]\<rparr>)\<rparr>\<rparr>"
  by (simp add: staged_engine2_def staged_engine_eq engine_eval parse_eval)

text \<open>Doubles that the examples meet.\<close>

lemma fl_examples:
  "fl 10 = JNum 10" "fl 12 = JNum 12" "fl (- 2) = JNum (- 2)" "fl 2 = JNum 2"
  by code_simp+

lemmas commit_eval =
  reported_def reportable_def change_entry_def si_units_def distance_def wf_cache_def
  committed_def fl_examples

lemma example_frames:
  "isOperational staged_engine" "isOperational staged_engine2"
  "frame_valid (''Checksum'' @ [CHR 0x09, CHR 0xD4]) staged_engine"
  "frame_valid (''Checksum'' @ [CHR 0x09, CHR 0xDC]) staged_engine2"
  "wf_cache (cache staged_engine)" "wf_cache (cache staged_engine2)"
  "reported no_number (store (cache staged_engine)) (objects_of (bmvdata (cache staged_engine))) = []"
  "reported no_number (store (cache staged_engine2)) (objects_of (bmvdata (cache staged_engine2)))
     = [(''relayState'', JStr ''ON'', JStr ''OFF'')]"
  "rxtx_on staged_engine2 = [9]" "packageArrivalTime staged_engine2 = 100"
  "calls staged_engine = []" "calls staged_engine2 = []"
  "store (cache staged_engine) 0 =
     \<lparr>value = JNum 10, newValue = JNum 12, nativeToUnitFactor = 1, delta = 5, on = [1]\<rparr>"
  "store (cache staged_engine2) 0 =
     \<lparr>value = JNum 10, newValue = JNum 12, nativeToUnitFactor = 1, delta = 5, on = [1]\<rparr>"
  "store (cache staged_engine2) (Suc 0) =
     \<lparr>value = JStr ''ON'', newValue = JStr ''OFF'', nativeToUnitFactor = 1, delta = 0, on = [2]\<rparr>"
  by (auto simp: staged_engine_eq staged_engine2_eq engine_eval parse_eval commit_eval)

text \<open>
  The cache in millivolts: the doubles of its factor and threshold, of the values in SI
  units and of their distances, and the frames used below.
\<close>

lemma literals:
  "literal (1 / 1000) = 1152921504606847 / 1152921504606846976"
  "literal (5 / 1000) = 5764607523034235 / 1152921504606846976"
  "literal (1 / 200) = 5764607523034235 / 1152921504606846976"
  by code_simp+

lemma milli_doubles:
  "si_units no_number (JNum 10) (1152921504606847 / 1152921504606846976)
     = JNum (5764607523034235 / 576460752303423488)"
  "si_units no_number (JNum 15) (1152921504606847 / 1152921504606846976)
     = JNum (1080863910568919 / 72057594037927936)"
  "si_units no_number (JNum 16) (1152921504606847 / 1152921504606846976)
     = JNum (1152921504606847 / 72057594037927936)"
  "distance (JNum (5764607523034235 / 576460752303423488))
            (JNum (1080863910568919 / 72057594037927936))
     = JNum (2882303761517117 / 576460752303423488)"
  "distance (JNum (5764607523034235 / 576460752303423488))
            (JNum (1152921504606847 / 72057594037927936))
     = JNum (3458764513820541 / 576460752303423488)"
  by code_simp+

lemma toString10_examples: "toString10 15 = ''15''" "toString10 16 = ''16''"
  by code_simp+

lemmas milli_eval =
  milli_engine_def milli_cache_def registerListener_def new_ReceiverTransmitter_def
  default_config_def new_CommandMessageQ_def no_number_def no_registration_def literals

lemma milli_staged_eq:
  "milli_staged 15 = milli_engine
     \<lparr>checksum := Some 220, packageArrivalTime := 100,
      cache := milli_cache\<lparr>store := (store milli_cache)
        (0 := \<lparr>value = JNum 10, newValue = JNum 15,
               nativeToUnitFactor = 1152921504606847 / 1152921504606846976,
               delta = 5764607523034235 / 1152921504606846976, on = [1]\<rparr>)\<rparr>\<rparr>"
  "milli_staged 16 = milli_engine
     \<lparr>checksum := Some 221, packageArrivalTime := 100,
      cache := milli_cache\<lparr>store := (store milli_cache)
        (0 := \<lparr>value = JNum 10, newValue = JNum 16,
               nativeToUnitFactor = 1152921504606847 / 1152921504606846976,
               delta = 5764607523034235 / 1152921504606846976, on = [1]\<rparr>)\<rparr>\<rparr>"
  by (simp_all add: milli_staged_def milli_eval parse_eval toString10_examples)

lemma milli_frames:
  "isOperational (milli_staged 15)" "isOperational (milli_staged 16)"
  "frame_valid (''Checksum'' @ [CHR 0x09, CHR 0xD1]) (milli_staged 15)"
  "frame_valid (''Checksum'' @ [CHR 0x09, CHR 0xD0]) (milli_staged 16)"
  "wf_cache (cache (milli_staged 15))" "wf_cache (cache (milli_staged 16))"
  "reported no_number (store (cache (milli_staged 15)))
     (objects_of (bmvdata (cache (milli_staged 15)))) = []"
  "reported no_number (store (cache (milli_staged 16)))
     (objects_of (bmvdata (cache (milli_staged 16))))
     = [(''upperVoltage'', JNum (5764607523034235 / 576460752303423488),
         JNum (1152921504606847 / 72057594037927936))]"
  "rxtx_on (milli_staged 15) = [9]" "packageArrivalTime (milli_staged 15) = 100"
  "rxtx_on (milli_staged 16) = [9]" "packageArrivalTime (milli_staged 16) = 100"
  "calls (milli_staged 15) = []" "calls (milli_staged 16) = []"
  "value (store (cache (milli_staged 15)) 0) = JNum 10"
  "newValue (store (cache (milli_staged 15)) 0) = JNum 15"
  "value (store (cache (milli_staged 16)) 0) = JNum 10"
  "newValue (store (cache (milli_staged 16)) 0) = JNum 16"
  by (auto simp: milli_staged_eq milli_eval parse_eval reported_def reportable_def
      change_entry_def wf_cache_def milli_doubles)

lemma milli_objects:
  "objects_of (bmvdata (cache (milli_staged 15))) = [(''upperVoltage'', 0)]"
  "objects_of (bmvdata (cache (milli_staged 16))) = [(''upperVoltage'', 0)]"
  by (simp_all add: milli_staged_eq milli_eval)

text \<open>
  The threshold is tested on doubles. In the cache with the factor \<^verbatim>\<open>0.001\<close> and the
  threshold \<^verbatim>\<open>0.005\<close> a change of the voltage from 10 to 15 is a change of five times the
  factor, which is the threshold exactly; but the products \<^verbatim>\<open>10 * 0.001\<close> and
  \<^verbatim>\<open>15 * 0.001\<close> are rounded and so is their difference, which is
  \<^verbatim>\<open>0.004999999999999999\<close>: \<^verbatim>\<open>runOnFunction\<close> returns no change, and the frame commits the
  new value without a call of the listener of the change list. A change from 10 to 16 is
  reported, with both values in SI units.
\<close>

lemma runOnFunction_rounds:
  "runOnFunction no_number 100 ''upperVoltage''
     \<lparr>value = JNum 10, newValue = JNum 15, nativeToUnitFactor = literal (1 / 1000),
      delta = literal (5 / 1000), on = [1]\<rparr> = (None, [])"
  "runOnFunction no_number 100 ''upperVoltage''
     \<lparr>value = JNum 10, newValue = JNum 16, nativeToUnitFactor = literal (1 / 1000),
      delta = literal (5 / 1000), on = [1]\<rparr>
   = (Some (JNum (5764607523034235 / 576460752303423488),
            JNum (1152921504606847 / 72057594037927936)),
      [ValueCall 1 (JNum (1152921504606847 / 72057594037927936))
         (JNum (5764607523034235 / 576460752303423488)) 100 ''upperVoltage''])"
  "(15 - 10) * literal (1 / 1000) = literal (5 / 1000)"
  by code_simp+

lemma change_of_exactly_delta_not_listed:
  "value (store (cache (milli_staged 15)) 0) = JNum 10
   \<and> value (store (cache (milli_committed 15 (CHR 0xD1))) 0) = JNum 15
   \<and> filter is_ChangeListCall (calls (milli_committed 15 (CHR 0xD1))) = []
   \<and> value (store (cache (milli_committed 16 (CHR 0xD0))) 0) = JNum 16
   \<and> filter is_ChangeListCall (calls (milli_committed 16 (CHR 0xD0)))
       = [ChangeListCall 9
            [(''upperVoltage'', JNum (5764607523034235 / 576460752303423488),
              JNum (1152921504606847 / 72057594037927936))] 100]"
proof -
  have line: "take 9 (''Checksum'' @ [CHR 0x09, CHR 0xD1]) = ''Checksum'' @ [CHR 0x09]"
    "take 9 (''Checksum'' @ [CHR 0x09, CHR 0xD0]) = ''Checksum'' @ [CHR 0x09]" by simp_all
  from parse_valid_frame [OF milli_frames(1) line(1) milli_frames(3) milli_frames(5),
      of no_number no_registration 101]
  obtain st1 where
    p1: "parseSerialInput no_number no_registration 101
          (''Checksum'' @ [CHR 0x09, CHR 0xD1]) (milli_staged 15) = Some (Inr st1)"
    and f1: "filter is_ChangeListCall (calls_since (milli_staged 15) st1)
         = (if reported no_number (store (cache (milli_staged 15)))
                 (objects_of (bmvdata (cache (milli_staged 15)))) = [] then []
            else map (\<lambda>f. ChangeListCall f
                        (reported no_number (store (cache (milli_staged 15)))
                           (objects_of (bmvdata (cache (milli_staged 15)))))
                        (packageArrivalTime (milli_staged 15))) (rxtx_on (milli_staged 15)))"
    and g1: "filter is_ChangeListCall (calls st1)
         = filter is_ChangeListCall (calls (milli_staged 15))
           @ filter is_ChangeListCall (calls_since (milli_staged 15) st1)"
    and a1: "\<forall>r. r \<in> set (map snd (objects_of (bmvdata (cache (milli_staged 15))))) \<longrightarrow>
            store (cache st1) r = committed (store (cache (milli_staged 15)) r)"
    by blast
  from parse_valid_frame [OF milli_frames(2) line(2) milli_frames(4) milli_frames(6),
      of no_number no_registration 101]
  obtain st2 where
    p2: "parseSerialInput no_number no_registration 101
          (''Checksum'' @ [CHR 0x09, CHR 0xD0]) (milli_staged 16) = Some (Inr st2)"
    and f2: "filter is_ChangeListCall (calls_since (milli_staged 16) st2)
         = (if reported no_number (store (cache (milli_staged 16)))
                 (objects_of (bmvdata (cache (milli_staged 16)))) = [] then []
            else map (\<lambda>f. ChangeListCall f
                        (reported no_number (store (cache (milli_staged 16)))
                           (objects_of (bmvdata (cache (milli_staged 16)))))
                        (packageArrivalTime (milli_staged 16))) (rxtx_on (milli_staged 16)))"
    and g2: "filter is_ChangeListCall (calls st2)
         = filter is_ChangeListCall (calls (milli_staged 16))
           @ filter is_ChangeListCall (calls_since (milli_staged 16) st2)"
    and a2: "\<forall>r. r \<in> set (map snd (objects_of (bmvdata (cache (milli_staged 16))))) \<longrightarrow>
            store (cache st2) r = committed (store (cache (milli_staged 16)) r)"
    by blast
  have c1: "milli_committed 15 (CHR 0xD1) = st1" unfolding milli_committed_def p1 by simp
  have c2: "milli_committed 16 (CHR 0xD0) = st2" unfolding milli_committed_def p2 by simp
  from a1 have "store (cache st1) 0 = committed (store (cache (milli_staged 15)) 0)"
    by (simp add: milli_objects)
  then have v1: "value (store (cache (milli_committed 15 (CHR 0xD1))) 0) = JNum 15"
    by (simp add: c1 milli_frames committed_def)
  from a2 have "store (cache st2) 0 = committed (store (cache (milli_staged 16)) 0)"
    by (simp add: milli_objects)
  then have v2: "value (store (cache (milli_committed 16 (CHR 0xD0))) 0) = JNum 16"
    by (simp add: c2 milli_frames committed_def)
  have l1: "filter is_ChangeListCall (calls (milli_committed 15 (CHR 0xD1))) = []"
    using f1 g1 by (simp add: c1 milli_frames)
  have l2: "filter is_ChangeListCall (calls (milli_committed 16 (CHR 0xD0)))
       = [ChangeListCall 9
            [(''upperVoltage'', JNum (5764607523034235 / 576460752303423488),
              JNum (1152921504606847 / 72057594037927936))] 100]"
    using f2 g2 by (simp add: c2 milli_frames)
  from v1 v2 l1 l2 show ?thesis by (simp add: milli_frames)
qed

text \<open>
  Claim C2, amended. For a frame whose sum is zero modulo 256 and a cache with distinct
  keys and descriptors, the \<^verbatim>\<open>Checksum\<close> line commits every staged value of \<^verbatim>\<open>bmvdata\<close>:
  the \<^verbatim>\<open>value\<close> of each of its descriptors becomes the staged \<^verbatim>\<open>newValue\<close>, if there is
  one, and \<^verbatim>\<open>newValue\<close> is cleared; a descriptor that is not in \<^verbatim>\<open>bmvdata\<close> is left as it
  is. The keys of the change map are the descriptors of \<^verbatim>\<open>bmvdata\<close> whose change is
  reportable: the staged value is not equal (\<^verbatim>\<open>==\<close>) to the committed one and, if it is a
  number, the distance of the two values in SI units, computed on doubles as the code
  does, is at least \<^verbatim>\<open>delta\<close>. They are among the descriptors whose \<^verbatim>\<open>value\<close> changed. If
  the change map is not empty, each listener of the change list is called exactly once,
  with that map and the frame's arrival time; if it is empty, none is called.
\<close>

theorem valid_frame_commits:
  assumes "isOperational st" and "take 9 line = ''Checksum'' @ [CHR 0x09]"
    and "frame_valid line st" and "wf_cache (cache st)"
  shows "\<exists>st'. parseSerialInput s registerComponent now line st = Some (Inr st')
     \<and> filter is_ChangeListCall (calls_since st st')
         = (if reported s (store (cache st)) (objects_of (bmvdata (cache st))) = [] then []
            else map (\<lambda>f. ChangeListCall f
                        (reported s (store (cache st)) (objects_of (bmvdata (cache st))))
                        (packageArrivalTime st)) (rxtx_on st))
     \<and> map fst (reported s (store (cache st)) (objects_of (bmvdata (cache st))))
         = map fst (filter (\<lambda>kr. reportable s (store (cache st) (snd kr)))
                      (objects_of (bmvdata (cache st))))
     \<and> (\<forall>k r. (k, r) \<in> set (objects_of (bmvdata (cache st))) \<longrightarrow>
            value (store (cache st') r)
              = (if newValue (store (cache st) r) \<noteq> JNull then newValue (store (cache st) r)
                 else value (store (cache st) r))
            \<and> newValue (store (cache st') r) = JNull
            \<and> (reportable s (store (cache st) r) \<longrightarrow>
                 value (store (cache st') r) \<noteq> value (store (cache st) r)))
     \<and> (\<forall>r. r \<notin> snd ` set (objects_of (bmvdata (cache st))) \<longrightarrow>
            store (cache st') r = store (cache st) r)"
proof -
  from parse_valid_frame[OF assms, of s registerComponent now] obtain st' where
    p: "parseSerialInput s registerComponent now line st = Some (Inr st')"
    and f: "filter is_ChangeListCall (calls_since st st')
         = (if reported s (store (cache st)) (objects_of (bmvdata (cache st))) = [] then []
            else map (\<lambda>f. ChangeListCall f
                        (reported s (store (cache st)) (objects_of (bmvdata (cache st))))
                        (packageArrivalTime st)) (rxtx_on st))"
    and a: "\<forall>r. r \<in> set (map snd (objects_of (bmvdata (cache st)))) \<longrightarrow>
            store (cache st') r = committed (store (cache st) r)"
    and b: "\<forall>r. r \<notin> set (map snd (objects_of (bmvdata (cache st)))) \<longrightarrow>
            store (cache st') r = store (cache st) r"
    by blast
  have k: "map fst (reported s (store (cache st)) (objects_of (bmvdata (cache st))))
         = map fst (filter (\<lambda>kr. reportable s (store (cache st) (snd kr)))
                      (objects_of (bmvdata (cache st))))"
    by (simp add: reported_def comp_def)
  have v: "\<forall>k r. (k, r) \<in> set (objects_of (bmvdata (cache st))) \<longrightarrow>
            value (store (cache st') r)
              = (if newValue (store (cache st) r) \<noteq> JNull then newValue (store (cache st) r)
                 else value (store (cache st) r))
            \<and> newValue (store (cache st') r) = JNull
            \<and> (reportable s (store (cache st) r) \<longrightarrow>
                 value (store (cache st') r) \<noteq> value (store (cache st) r))"
  proof (intro allI impI)
    fix k r assume "(k, r) \<in> set (objects_of (bmvdata (cache st)))"
    then have "r \<in> set (map snd (objects_of (bmvdata (cache st))))"
      by (auto intro: rev_image_eqI)
    with a have c: "store (cache st') r = committed (store (cache st) r)" by blast
    show "value (store (cache st') r)
              = (if newValue (store (cache st) r) \<noteq> JNull then newValue (store (cache st) r)
                 else value (store (cache st) r))
            \<and> newValue (store (cache st') r) = JNull
            \<and> (reportable s (store (cache st) r) \<longrightarrow>
                 value (store (cache st') r) \<noteq> value (store (cache st) r))"
      using reportable_differs[of s "store (cache st) r"]
      by (auto simp: c committed_value)
  qed
  have o: "\<forall>r. r \<notin> snd ` set (objects_of (bmvdata (cache st))) \<longrightarrow>
            store (cache st') r = store (cache st) r"
    using b by simp
  from p f k v o show ?thesis by blast
qed

theorem valid_frame_commits_witness:
  "isOperational staged_engine2
   \<and> frame_valid (''Checksum'' @ [CHR 0x09, CHR 0xDC]) staged_engine2
   \<and> wf_cache (cache staged_engine2)
   \<and> (\<exists>st'. parseSerialInput no_number no_registration 101
                (''Checksum'' @ [CHR 0x09, CHR 0xDC]) staged_engine2 = Some (Inr st')
         \<and> filter is_ChangeListCall (calls_since staged_engine2 st')
             = [ChangeListCall 9 [(''relayState'', JStr ''ON'', JStr ''OFF'')] 100]
         \<and> value (store (cache st') 1) = JStr ''OFF''
         \<and> newValue (store (cache st') 1) = JNull
         \<and> store (cache st') 7 = store (cache staged_engine2) 7)
   \<and> isOperational (milli_staged 16)
   \<and> frame_valid (''Checksum'' @ [CHR 0x09, CHR 0xD0]) (milli_staged 16)
   \<and> wf_cache (cache (milli_staged 16))
   \<and> (\<exists>st'. parseSerialInput no_number no_registration 101
                (''Checksum'' @ [CHR 0x09, CHR 0xD0]) (milli_staged 16) = Some (Inr st')
         \<and> filter is_ChangeListCall (calls_since (milli_staged 16) st')
             = [ChangeListCall 9
                  [(''upperVoltage'', JNum (5764607523034235 / 576460752303423488),
                    JNum (1152921504606847 / 72057594037927936))] 100]
         \<and> value (store (cache st') 0) = JNum 16
         \<and> newValue (store (cache st') 0) = JNull)"
proof -
  have line: "take 9 (''Checksum'' @ [CHR 0x09, CHR 0xDC]) = ''Checksum'' @ [CHR 0x09]"
    "take 9 (''Checksum'' @ [CHR 0x09, CHR 0xD0]) = ''Checksum'' @ [CHR 0x09]" by simp_all
  have m: "(''relayState'', 1) \<in> set (objects_of (bmvdata (cache staged_engine2)))"
    "7 \<notin> snd ` set (objects_of (bmvdata (cache staged_engine2)))"
    by (simp_all add: staged_engine2_eq engine_eval)
  from valid_frame_commits [OF example_frames(2) line(1) example_frames(4) example_frames(6),
      of no_number no_registration 101]
  obtain st' where
    p: "parseSerialInput no_number no_registration 101
          (''Checksum'' @ [CHR 0x09, CHR 0xDC]) staged_engine2 = Some (Inr st')"
    and f: "filter is_ChangeListCall (calls_since staged_engine2 st')
         = (if reported no_number (store (cache staged_engine2))
                 (objects_of (bmvdata (cache staged_engine2))) = [] then []
            else map (\<lambda>f. ChangeListCall f
                        (reported no_number (store (cache staged_engine2))
                           (objects_of (bmvdata (cache staged_engine2))))
                        (packageArrivalTime staged_engine2)) (rxtx_on staged_engine2))"
    and v: "\<forall>k r. (k, r) \<in> set (objects_of (bmvdata (cache staged_engine2))) \<longrightarrow>
            value (store (cache st') r)
              = (if newValue (store (cache staged_engine2) r) \<noteq> JNull
                 then newValue (store (cache staged_engine2) r)
                 else value (store (cache staged_engine2) r))
            \<and> newValue (store (cache st') r) = JNull
            \<and> (reportable no_number (store (cache staged_engine2) r) \<longrightarrow>
                 value (store (cache st') r) \<noteq> value (store (cache staged_engine2) r))"
    and o: "\<forall>r. r \<notin> snd ` set (objects_of (bmvdata (cache staged_engine2))) \<longrightarrow>
            store (cache st') r = store (cache staged_engine2) r"
    by blast
  from f have f': "filter is_ChangeListCall (calls_since staged_engine2 st')
             = [ChangeListCall 9 [(''relayState'', JStr ''ON'', JStr ''OFF'')] 100]"
    by (simp add: example_frames)
  from v m(1) have "value (store (cache st') 1) = JStr ''OFF'' \<and> newValue (store (cache st') 1) = JNull"
    by (auto simp: example_frames)
  moreover from o m(2) have "store (cache st') 7 = store (cache staged_engine2) 7" by blast
  ultimately have first: "\<exists>st'. parseSerialInput no_number no_registration 101
                (''Checksum'' @ [CHR 0x09, CHR 0xDC]) staged_engine2 = Some (Inr st')
         \<and> filter is_ChangeListCall (calls_since staged_engine2 st')
             = [ChangeListCall 9 [(''relayState'', JStr ''ON'', JStr ''OFF'')] 100]
         \<and> value (store (cache st') 1) = JStr ''OFF''
         \<and> newValue (store (cache st') 1) = JNull
         \<and> store (cache st') 7 = store (cache staged_engine2) 7"
    using p f' by blast
  have n: "(''upperVoltage'', 0) \<in> set (objects_of (bmvdata (cache (milli_staged 16))))"
    by (simp add: milli_objects)
  from valid_frame_commits [OF milli_frames(2) line(2) milli_frames(4) milli_frames(6),
      of no_number no_registration 101]
  obtain st2 where
    p2: "parseSerialInput no_number no_registration 101
          (''Checksum'' @ [CHR 0x09, CHR 0xD0]) (milli_staged 16) = Some (Inr st2)"
    and f2: "filter is_ChangeListCall (calls_since (milli_staged 16) st2)
         = (if reported no_number (store (cache (milli_staged 16)))
                 (objects_of (bmvdata (cache (milli_staged 16)))) = [] then []
            else map (\<lambda>f. ChangeListCall f
                        (reported no_number (store (cache (milli_staged 16)))
                           (objects_of (bmvdata (cache (milli_staged 16)))))
                        (packageArrivalTime (milli_staged 16))) (rxtx_on (milli_staged 16)))"
    and v2: "\<forall>k r. (k, r) \<in> set (objects_of (bmvdata (cache (milli_staged 16)))) \<longrightarrow>
            value (store (cache st2) r)
              = (if newValue (store (cache (milli_staged 16)) r) \<noteq> JNull
                 then newValue (store (cache (milli_staged 16)) r)
                 else value (store (cache (milli_staged 16)) r))
            \<and> newValue (store (cache st2) r) = JNull
            \<and> (reportable no_number (store (cache (milli_staged 16)) r) \<longrightarrow>
                 value (store (cache st2) r) \<noteq> value (store (cache (milli_staged 16)) r))"
    by blast
  from f2 have f2': "filter is_ChangeListCall (calls_since (milli_staged 16) st2)
             = [ChangeListCall 9
                  [(''upperVoltage'', JNum (5764607523034235 / 576460752303423488),
                    JNum (1152921504606847 / 72057594037927936))] 100]"
    by (simp add: milli_frames)
  from v2 n have "value (store (cache st2) 0) = JNum 16 \<and> newValue (store (cache st2) 0) = JNull"
    by (auto simp: milli_frames)
  with p2 f2' have second: "\<exists>st'. parseSerialInput no_number no_registration 101
                (''Checksum'' @ [CHR 0x09, CHR 0xD0]) (milli_staged 16) = Some (Inr st')
         \<and> filter is_ChangeListCall (calls_since (milli_staged 16) st')
             = [ChangeListCall 9
                  [(''upperVoltage'', JNum (5764607523034235 / 576460752303423488),
                    JNum (1152921504606847 / 72057594037927936))] 100]
         \<and> value (store (cache st') 0) = JNum 16
         \<and> newValue (store (cache st') 0) = JNull"
    by blast
  from first second show ?thesis
    using example_frames(2,4,6) milli_frames(2,4,6) by blast
qed

text \<open>
  Claim C2. In the frame with \<^verbatim>\<open>V\<close> = 12 and \<^verbatim>\<open>Relay\<close> = \<^verbatim>\<open>OFF\<close> the value of the voltage
  changes from 10 to 12, which is less than its \<^verbatim>\<open>delta\<close> of 5, and the change map the
  listener gets has the key \<^verbatim>\<open>relayState\<close> only. In the frame with \<^verbatim>\<open>V\<close> = 12 alone the
  value changes as well and the listener of the change list is not called at all.
\<close>

theorem change_below_delta_not_listed:
  "value (store (cache staged_engine2) 0) = JNum 10
   \<and> value (store (cache committed_engine2) 0) = JNum 12
   \<and> filter is_ChangeListCall (calls committed_engine2)
       = [ChangeListCall 9 [(''relayState'', JStr ''ON'', JStr ''OFF'')] 100]
   \<and> value (store (cache staged_engine) 0) = JNum 10
   \<and> value (store (cache committed_engine) 0) = JNum 12
   \<and> filter is_ChangeListCall (calls committed_engine) = []"
proof -
  have line: "take 9 (''Checksum'' @ [CHR 0x09, CHR 0xDC]) = ''Checksum'' @ [CHR 0x09]"
    "take 9 (''Checksum'' @ [CHR 0x09, CHR 0xD4]) = ''Checksum'' @ [CHR 0x09]" by simp_all
  from parse_valid_frame [OF example_frames(2) line(1) example_frames(4) example_frames(6),
      of no_number no_registration 101]
  obtain st2 where
    p2: "parseSerialInput no_number no_registration 101
          (''Checksum'' @ [CHR 0x09, CHR 0xDC]) staged_engine2 = Some (Inr st2)"
    and f2: "filter is_ChangeListCall (calls_since staged_engine2 st2)
         = (if reported no_number (store (cache staged_engine2))
                 (objects_of (bmvdata (cache staged_engine2))) = [] then []
            else map (\<lambda>f. ChangeListCall f
                        (reported no_number (store (cache staged_engine2))
                           (objects_of (bmvdata (cache staged_engine2))))
                        (packageArrivalTime staged_engine2)) (rxtx_on staged_engine2))"
    and g2: "filter is_ChangeListCall (calls st2)
         = filter is_ChangeListCall (calls staged_engine2)
           @ filter is_ChangeListCall (calls_since staged_engine2 st2)"
    and a2: "\<forall>r. r \<in> set (map snd (objects_of (bmvdata (cache staged_engine2)))) \<longrightarrow>
            store (cache st2) r = committed (store (cache staged_engine2) r)"
    by blast
  from parse_valid_frame [OF example_frames(1) line(2) example_frames(3) example_frames(5),
      of no_number no_registration 101]
  obtain st1 where
    p1: "parseSerialInput no_number no_registration 101
          (''Checksum'' @ [CHR 0x09, CHR 0xD4]) staged_engine = Some (Inr st1)"
    and f1: "filter is_ChangeListCall (calls_since staged_engine st1)
         = (if reported no_number (store (cache staged_engine))
                 (objects_of (bmvdata (cache staged_engine))) = [] then []
            else map (\<lambda>f. ChangeListCall f
                        (reported no_number (store (cache staged_engine))
                           (objects_of (bmvdata (cache staged_engine))))
                        (packageArrivalTime staged_engine)) (rxtx_on staged_engine))"
    and g1: "filter is_ChangeListCall (calls st1)
         = filter is_ChangeListCall (calls staged_engine)
           @ filter is_ChangeListCall (calls_since staged_engine st1)"
    and a1: "\<forall>r. r \<in> set (map snd (objects_of (bmvdata (cache staged_engine)))) \<longrightarrow>
            store (cache st1) r = committed (store (cache staged_engine) r)"
    by blast
  have c2: "committed_engine2 = st2" unfolding committed_engine2_def p2 by simp
  have c1: "committed_engine = st1" unfolding committed_engine_def p1 by simp
  have "0 \<in> set (map snd (objects_of (bmvdata (cache staged_engine2))))"
    by (simp add: staged_engine2_eq engine_eval)
  with a2 have "store (cache st2) 0 = committed (store (cache staged_engine2) 0)"
    by blast
  then have v2: "value (store (cache committed_engine2) 0) = JNum 12"
    by (simp add: c2 example_frames committed_def)
  have "0 \<in> set (map snd (objects_of (bmvdata (cache staged_engine))))"
    by (simp add: staged_engine_eq engine_eval)
  with a1 have "store (cache st1) 0 = committed (store (cache staged_engine) 0)"
    by blast
  then have v1: "value (store (cache committed_engine) 0) = JNum 12"
    by (simp add: c1 example_frames committed_def)
  have l2: "filter is_ChangeListCall (calls committed_engine2)
       = [ChangeListCall 9 [(''relayState'', JStr ''ON'', JStr ''OFF'')] 100]"
    using f2 g2 by (simp add: c2 example_frames)
  have l1: "filter is_ChangeListCall (calls committed_engine) = []"
    using f1 g1 by (simp add: c1 example_frames)
  from v1 v2 l1 l2 show ?thesis by (simp add: example_frames)
qed

section \<open>The engine: sending, responses and timeouts\<close>

text \<open>
  Closed facts about the strings of the examples, and the definitions that a run of the
  engine on a concrete state unfolds.
\<close>

lemma small_evals:
  "isValid ''78DED01D3''"
  "append_checksum restartCommand = ''64F''"
  "getResponse \<lparr>cmdStr = ''78DED00D4'', priority = p, maxRetries = m\<rparr> = ''78DED00''"
  "getResponse \<lparr>cmdStr = ''154'', priority = p, maxRetries = m\<rparr> = ''5''"
  "getId \<lparr>cmdStr = ''154'', priority = p, maxRetries = m\<rparr> = ''1''"
  "parseIdentifier ''78DED01D3'' = ''78DED''"
  "package ''64F'' = '':64F'' @ [CHR 0x0A]"
  "package ''78DED00D4'' = '':78DED00D4'' @ [CHR 0x0A]"
  "package ''154'' = '':154'' @ [CHR 0x0A]"
  "facade_ping default_config Undefined False = \<lparr>cmdStr = ''154'', priority = 0, maxRetries = 3\<rparr>"
  by code_simp+

lemmas send_eval =
  sendMsg_def isEmpty_def Q_push_back_def indexForPriority_def indexLoop.simps insertPriority_def
  runMessageQ_def raise_head_def setPriority_def getExpectedResponseTo_def setTimeout_def
  clearTimeout_def port_write_def restart_def getMessage_def Let_def substring_def

lemma sent_get_V:
  "sendMsg 0 get_V example_engine = example_engine
     \<lparr>responseMap := (\<lambda>k. None)(''78DED'' \<mapsto>
        \<lparr>expect = ''78DED00'', orgCmdId = ''78DED'', timerId = 0, doRetry = 3, sentTime = 0\<rparr>),
      cmdQ := \<lparr>cmdMessageQ = [\<lparr>cmdStr = ''78DED00D4'', priority = 1, maxRetries = 3\<rparr>],
               compression = True\<rparr>,
      port := [(0, '':78DED00D4'' @ [CHR 0x0A])],
      timers := [(0, 6000, ResponseTimeout \<lparr>cmdStr = ''78DED00D4'', priority = 1, maxRetries = 3\<rparr>)],
      nextTimerId := 1\<rparr>"
  by (simp add: send_eval engine_eval example_commands example_ids small_evals)

text \<open>
  Claim C8 (the engine never writes the restart command while the relay is \<^verbatim>\<open>ON\<close>; on
  the path of a refused response and on the path of the timeout \<^verbatim>\<open>restart()\<close> is called
  only when the relay is known to be \<^verbatim>\<open>OFF\<close>). The code does otherwise on the path of
  the refused response: in \<^verbatim>\<open>evaluate\<close> the call \<^verbatim>\<open>this.restart()\<close> that follows
  \<^verbatim>\<open>if (bmvdata.relayState === 'OFF') this.restart();\<close> has no guard. In the state
  reached by sending the get of \<^verbatim>\<open>0xED8D\<close> from the example engine, whose relay value is
  \<^verbatim>\<open>ON\<close>, the valid response \<^verbatim>\<open>78DED01D3\<close> has the identifier of the pending request
  but does not start with the expected \<^verbatim>\<open>78DED00\<close>; evaluating it at time 5 writes the
  restart command \<^verbatim>\<open>:64F\<close> to the port, and then the get again.
\<close>

theorem restart_while_relay_on:
  "relay_value (cache (sendMsg 0 get_V example_engine)) = Inr (JStr ''ON'')
   \<and> responseMap (sendMsg 0 get_V example_engine) (parseIdentifier ''78DED01D3'')
       = Some \<lparr>expect = ''78DED00'', orgCmdId = ''78DED'', timerId = 0, doRetry = 3, sentTime = 0\<rparr>
   \<and> isValid ''78DED01D3''
   \<and> port (evaluate 5 ''78DED01D3'' (sendMsg 0 get_V example_engine))
       = [(0, '':78DED00D4'' @ [CHR 0x0A]), (5, '':64F'' @ [CHR 0x0A]),
          (5, '':78DED00D4'' @ [CHR 0x0A])]"
  unfolding sent_get_V
  by (simp add: evaluate_def relay_value_def bmvdata_get_def send_eval engine_eval small_evals
      example_ids)

text \<open>
  Timeouts. The states \<^const>\<open>ping_state\<close> and \<^const>\<open>get_state\<close> are the states of the
  example engine after a ping, respectively a get, and \<^verbatim>\<open>k\<close> timeouts.
\<close>

lemmas timeout_eval =
  fire_next_def fire_timer_def responseTimeoutHandler_def Q_delete_def Q_find_def Q_del_def
  getQLength_def relay_value_def isOK_def isUnknownID_def

lemma sent_ping:
  "sendMsg 0 (facade_ping default_config Undefined False) example_engine = ping_state 0"
  unfolding small_evals(10)
  by (simp add: ping_state_def send_eval engine_eval small_evals)

lemma ping_step: "fire_next (ping_state k) = Inr (ping_state (Suc k))"
  by (simp add: ping_state_def timeout_eval send_eval engine_eval small_evals)

lemma ping_run: "fire_times n (ping_state k) = Inr (ping_state (k + n))"
  by (induction n arbitrary: k) (simp_all add: ping_step)

text \<open>
  Claim C4 (a command enqueued with \<^verbatim>\<open>maxRetries = n\<close> that never receives a valid
  response is written exactly \<^verbatim>\<open>n + 1\<close> times and then leaves the map of pending requests
  and the queue). The code does otherwise for a ping (and likewise for the version and the
  product id commands): \<^verbatim>\<open>getExpectedResponseTo\<close> files the pending request under the
  first characters of the expected response, \<^verbatim>\<open>5\<close> for a ping, while
  \<^verbatim>\<open>responseTimeoutHandler\<close> looks for the identifier of the command, \<^verbatim>\<open>1\<close>. The
  test \<^verbatim>\<open>doRetry <= 0\<close> is therefore never reached: after any number \<^verbatim>\<open>k\<close> of timeouts
  the ping, sent with 3 retries, has been written \<^verbatim>\<open>k + 1\<close> times, at intervals of the
  timeout, it is still the head of the queue, and the retry counter of its pending request
  has gone down to \<^verbatim>\<open>3 - k\<close>.
\<close>

theorem ping_resent_forever:
  "\<exists>st. fire_times k (sendMsg 0 (facade_ping default_config Undefined False) example_engine)
           = Inr st
     \<and> maxRetries (facade_ping default_config Undefined False) = 3
     \<and> port st = map (\<lambda>i. (i * 6000, '':154'' @ [CHR 0x0A])) [0..<Suc k]
     \<and> length (port st) = k + 1
     \<and> map cmdStr (cmdMessageQ (cmdQ st)) = [''154'']
     \<and> map_option doRetry (responseMap st ''5'') = Some (3 - of_nat k)
     \<and> responseMap st ''1'' = None"
proof -
  have "fire_times k (sendMsg 0 (facade_ping default_config Undefined False) example_engine)
      = Inr (ping_state k)"
    using ping_run[of k 0] by (simp add: sent_ping)
  moreover have "maxRetries (facade_ping default_config Undefined False) = 3"
    by (simp add: small_evals)
  ultimately show ?thesis
    by (simp add: ping_state_def)
qed

text \<open>
  For a get the identifier of the command and the key of the pending request agree, and
  the command is dropped after its retries.
\<close>

lemmas run_eval =
  isEmpty_def runMessageQ_def raise_head_def setPriority_def getExpectedResponseTo_def
  setTimeout_def clearTimeout_def port_write_def restart_def getMessage_def Let_def substring_def

lemma sent_get:
  "sendMsg 0 \<lparr>cmdStr = ''78DED00D4'', priority = p, maxRetries = of_nat n\<rparr> example_engine
     = get_state n 0"
  by (simp add: get_state_def send_eval engine_eval small_evals example_ids)

lemma relay_on: "relay_value (cache example_engine) = Inr (JStr ''ON'')"
  by (simp add: relay_value_def engine_eval)

lemma get_step:
  assumes "k < n"
  shows "fire_next (get_state n k) = Inr (get_state n (Suc k))"
proof -
  have c: "cache (get_state n k) = cache example_engine" by (simp add: get_state_def)
  from assms have d: "\<not> (of_nat n :: rat) - of_nat k \<le> 0" by simp
  have a: "(of_nat n :: rat) - of_nat k - 1 = of_nat n - (1 + of_nat k)" by simp
  show ?thesis
    using d
    by (simp add: get_state_def timeout_eval run_eval engine_eval small_evals example_ids a
        split: if_split)
qed

lemma get_last: "fire_next (get_state n n) = Inr (dropped_state n)"
  by (simp add: get_state_def dropped_state_def timeout_eval run_eval engine_eval small_evals
      example_ids)

lemma get_run: "k \<le> n \<Longrightarrow> fire_times (Suc (n - k)) (get_state n k) = Inr (dropped_state n)"
proof (induction "n - k" arbitrary: k)
  case 0
  then have "k = n" by simp
  then show ?case by (simp add: get_last)
next
  case (Suc d)
  then have lt: "k < n" and d: "d = n - Suc k" and le: "Suc k \<le> n" by simp_all
  from Suc.hyps(1)[OF d le] have "fire_times (Suc (n - Suc k)) (get_state n (Suc k)) = Inr (dropped_state n)" .
  moreover from lt have "Suc (n - k) = Suc (Suc (n - Suc k))" by simp
  ultimately show ?case using get_step[OF lt] by simp
qed

text \<open>
  A get that is never answered is written \<open>n + 1\<close> times, at intervals of the timeout,
  and then leaves the queue and the map of requests.
\<close>

lemma get_dropped_after_retries:
  "\<exists>st. fire_times (Suc n)
           (sendMsg 0 \<lparr>cmdStr = ''78DED00D4'', priority = p, maxRetries = of_nat n\<rparr> example_engine)
         = Inr st
     \<and> port st = map (\<lambda>i. (i * 6000, '':78DED00D4'' @ [CHR 0x0A])) [0..<Suc n]
     \<and> cmdMessageQ (cmdQ st) = [] \<and> responseMap st ''78DED'' = None \<and> timers st = []"
  using get_run[of 0 n] by (simp add: sent_get dropped_state_def)

text \<open>
  A valid response that does not start with the expected string makes the engine write
  the restart command, whatever the relay's state.
\<close>

lemma refused_response_restarts:
  assumes "isValid r" and "responseMap st (parseIdentifier r) = Some pr"
    and "expect pr \<noteq> substring r 0 (length (expect pr))"
  shows "(now, package (append_checksum restartCommand)) \<in> set (port (evaluate now r st))"
proof -
  have keep: "\<And>s. set (port s) \<subseteq> set (port (runMessageQ now s))"
    by (auto simp: runMessageQ_def getExpectedResponseTo_def setTimeout_def clearTimeout_def
        port_write_def Let_def split: option.splits)
  let ?s = "restart now (clearTimeout (timerId pr) st)"
  have "(now, package (append_checksum restartCommand)) \<in> set (port ?s)"
    by (simp add: restart_def port_write_def)
  with keep[of ?s] have one: "(now, package (append_checksum restartCommand))
      \<in> set (port (runMessageQ now ?s))" by blast
  have "(now, package (append_checksum restartCommand)) \<in> set (port (restart now ?s))"
    by (simp add: restart_def port_write_def)
  with keep[of "restart now ?s"] have two: "(now, package (append_checksum restartCommand))
      \<in> set (port (runMessageQ now (restart now ?s)))" by blast
  show ?thesis
    using assms one two by (simp add: evaluate_def Let_def bmvdata_get_def)
qed

text \<open>
  On a timeout the engine writes nothing but the head of the queue unless the relay's
  value is \<^verbatim>\<open>OFF\<close>.
\<close>

lemma timeout_restart_needs_relay_off:
  assumes "relay_value (cache st) = Inr v" and "v \<noteq> JStr ''OFF''"
    and "responseTimeoutHandler now c st = Inr st'"
  shows "port st' = port st
     \<or> port st' = port st @ [(now, package (getMessage (hd (cmdMessageQ (cmdQ st')))))]"
proof -
  have run: "\<And>s. port (runMessageQ now s) = port s
      \<or> (port (runMessageQ now s) = port s @ [(now, package (getMessage (hd (cmdMessageQ (cmdQ (runMessageQ now s))))))])"
    by (auto simp: runMessageQ_def getExpectedResponseTo_def setTimeout_def clearTimeout_def
        port_write_def Let_def raise_head_def getMessage_def isEmpty_def
        split: option.splits list.splits)
  define st0 where "st0 = st\<lparr>maxResponseTime := maxResponseTime st + rxtx_cmdResponseTimeoutMS st\<rparr>"
  have rv: "relay_value (cache st0) = Inr v" using assms(1) by (simp add: st0_def)
  have p0: "port st0 = port st" by (simp add: st0_def)
  define mid where "mid =
     (case responseMap st0 (getId c) of
        Some pr \<Rightarrow>
          (case (if js_rem_number (doRetry pr) 5 = Some 0
                 then (case relay_value (cache st0) of
                         Inl e \<Rightarrow> Inl e
                       | Inr v \<Rightarrow> Inr (if v = JStr ''OFF'' then restart now st0 else st0))
                 else Inr st0) of
             Inl e \<Rightarrow> Inl e
           | Inr st \<Rightarrow>
               if doRetry pr \<le> 0 then
                 (let st = st\<lparr>responseMap := (responseMap st)(getId c := None)\<rparr> in
                  case Q_delete (getId c) (cmdQ st) of
                    Inl e \<Rightarrow> Inl e
                  | Inr (status, q) \<Rightarrow> Inr (st\<lparr>cmdQ := q\<rparr>))
               else Inr st)
      | None \<Rightarrow> Inr st0)"
  have h: "responseTimeoutHandler now c st =
     (case mid of
        Inl e \<Rightarrow> Inl e
      | Inr st \<Rightarrow>
          if \<not> isEmpty (cmdQ st)
          then Inr (runMessageQ now (st\<lparr>cmdQ := raise_head (module_config st) (cmdQ st)\<rparr>))
          else Inr st)"
    unfolding responseTimeoutHandler_def mid_def st0_def Let_def by (rule refl)
  have A: "\<And>s1. mid = Inr s1 \<Longrightarrow> port s1 = port st"
    unfolding mid_def using rv assms(2) p0
    by (auto split: option.splits sum.splits if_splits prod.splits simp: Let_def)
  from assms(3) h obtain s1 where
    m: "mid = Inr s1"
    and fin: "st' = (if \<not> isEmpty (cmdQ s1)
                     then runMessageQ now (s1\<lparr>cmdQ := raise_head (module_config s1) (cmdQ s1)\<rparr>)
                     else s1)"
    by (cases mid) (auto split: if_splits)
  note s1 = A[OF m]
  show ?thesis
  proof (cases "isEmpty (cmdQ s1)")
    case True
    with fin s1 show ?thesis by simp
  next
    case False
    with fin have "st' = runMessageQ now (s1\<lparr>cmdQ := raise_head (module_config s1) (cmdQ s1)\<rparr>)"
      by simp
    with run[of "s1\<lparr>cmdQ := raise_head (module_config s1) (cmdQ s1)\<rparr>"] s1
    show ?thesis by auto
  qed
qed

text \<open>
  While the port is not operational the head is not sent and keeps its priority: a
  command of priority 1 sent next stands behind a head of priority 0.
\<close>

lemma unsent_head_keeps_priority:
  "map priority (cmdMessageQ (cmdQ
      (sendMsg 1 get_SOC_urgent
        (sendMsg 0 get_V (new_ReceiverTransmitter default_config example_cache))))) = [0, 1]"
  by (simp add: send_eval engine_eval example_commands example_ids)


end
